theory Spec2Isabelle
  imports Complex_Main
begin

section \<open>Bootstrap and jackknife notebook: data model\<close>

text \<open>
  The notebook is a sequence of cells over numpy and pandas. Its code is embedded in two
  layers. The first reads each cell as a function of the values it uses (columns, the
  random generator's output) and carries the claims about values and shapes. The second is
  a store model of the kernel session (names bound to objects on a heap) and carries the
  claims about effects and errors; its statements call the functions of the first layer.

  Exceptions are values of \<open>py_error\<close>; a computation that can raise returns
  \<open>py_error + 'a\<close>.
\<close>

datatype py_error =
    FileNotFoundError
  | UnicodeDecodeError
  | NameError
  | UndefinedVariableError
  | KeyError
  | ValueError
  | TypeError
  | IndexError
  | LinAlgError

text \<open>
  The two tables of the data model: a row of \<open>hubble_trim.dat\<close> (columns named by the
  \<open>names\<close> argument of the load; the fifth column is \<open>meth\<close> here) and a row of
  \<open>sndata.txt\<close> (the columns the notebook reads). A table is the list of its rows, one
  per line of the file, so a column is a \<open>map\<close> over the rows. The float type \<open>'f\<close> is
  a parameter.
\<close>

record 'f hubble_row =
  h0 :: 'f
  ep :: 'f
  em :: 'f
  date :: 'f
  meth :: string
  source :: string

record 'f sn_row =
  row_cz :: 'f
  row_mu :: 'f
  row_sigma_mu :: 'f

text \<open>
  numpy's floating-point kernels. The store model and the shape claims hold for any
  kernels, so they are a parameter there. The numeric functions come twice below: as
  the formulas they evaluate, in exact real arithmetic (\<open>np_mean\<close>, \<open>np_median\<close>,
  \<open>np_std\<close>, \<open>np_sqrt\<close>, \<open>int_to_H0\<close>, \<open>h0_best_err\<close>), and as binary64 computes
  them, every operation rounded (\<open>np_mean_b64\<close>, \<open>np_median_b64\<close>, \<open>int_to_H0_b64\<close>,
  \<open>h0_best_err_b64\<close>). \<open>None\<close> stands for numpy's \<open>nan\<close>.
\<close>

record 'f kernels =
  k_lit :: "real \<Rightarrow> 'f"
  k_gt :: "'f \<Rightarrow> 'f \<Rightarrow> bool"
  k_add :: "'f \<Rightarrow> 'f \<Rightarrow> 'f"
  k_sub :: "'f \<Rightarrow> 'f \<Rightarrow> 'f"
  k_mul :: "'f \<Rightarrow> 'f \<Rightarrow> 'f"
  k_div :: "'f \<Rightarrow> 'f \<Rightarrow> 'f"
  k_pow :: "'f \<Rightarrow> 'f \<Rightarrow> 'f"
  k_log10 :: "'f \<Rightarrow> 'f"
  k_sqrt :: "'f \<Rightarrow> 'f"
  k_mean :: "'f list \<Rightarrow> 'f"
  k_median :: "'f list \<Rightarrow> 'f"
  k_std :: "'f list \<Rightarrow> 'f"

section \<open>Numeric functions in exact arithmetic\<close>

text \<open>
  The functions of this section are the formulas of the code, read over the reals: no
  operation rounds, overflows or underflows. The code computes roundings of them.

  \<open>np.mean\<close> of a 1-D array: the sum over the count; \<open>nan\<close> on an empty array.
  (\<open>np_mean_b64\<close> below is the mean as binary64 computes it.)
\<close>

definition np_mean :: "real list \<Rightarrow> real option" where
  "np_mean xs = (if xs = [] then None else Some (sum_list xs / real (length xs)))"

text \<open>
  \<open>np.median\<close> of a 1-D array: the middle element of the sorted array, or the mean of
  the two middle elements when the count is even; \<open>nan\<close> on an empty array.
\<close>

definition np_median :: "real list \<Rightarrow> real option" where
  "np_median xs =
     (if xs = [] then None
      else let s = sort xs; n = length xs in
        if odd n then Some (s ! (n div 2))
        else Some ((s ! (n div 2 - 1) + s ! (n div 2)) / 2))"



text \<open>\<open>np.sqrt\<close>: \<open>nan\<close> on a negative number.\<close>

definition np_sqrt :: "real \<Rightarrow> real option" where
  "np_sqrt x = (if x < 0 then None else Some (sqrt x))"

text \<open>\<open>np.std\<close> (\<open>ddof=0\<close>): \<open>sqrt(mean(abs(x - x.mean())**2))\<close>.\<close>

definition np_std :: "real list \<Rightarrow> real option" where
  "np_std xs =
     (case np_mean xs of
        None \<Rightarrow> None
      | Some m \<Rightarrow>
          (case np_mean (map (\<lambda>x. \<bar>x - m\<bar> ^ 2) xs) of
             None \<Rightarrow> None
           | Some v \<Rightarrow> np_sqrt v))"

text \<open>A product with a \<open>nan\<close> factor is \<open>nan\<close>.\<close>

definition nan_mult :: "real option \<Rightarrow> real option \<Rightarrow> real option" where
  "nan_mult a b = (case (a, b) of (Some x, Some y) \<Rightarrow> Some (x * y) | _ \<Rightarrow> None)"

text \<open>
  \<^verbatim>\<open>def int_to_H0(b): return(10**(-0.2*b) * 10**5)\<close>
  The formula, over the reals; \<open>int_to_H0_b64\<close> below is the function as binary64
  computes it.
\<close>

definition int_to_H0 :: "real \<Rightarrow> real" where
  "int_to_H0 b = 10 powr (- 0.2 * b) * 10 ^ 5"

text \<open>
  \<^verbatim>\<open>h0_best_err = (int_to_H0(intercept_best-intercept_err_best)-int_to_H0(intercept_best+intercept_err_best))/2\<close>
  The formula, over the reals; \<open>h0_best_err_b64\<close> below is the value as binary64
  computes it.
\<close>

definition h0_best_err :: "real \<Rightarrow> real \<Rightarrow> real" where
  "h0_best_err intercept_best intercept_err_best =
     (int_to_H0 (intercept_best - intercept_err_best)
        - int_to_H0 (intercept_best + intercept_err_best)) / 2"

text \<open>
  \<^verbatim>\<open>h0_sigma_jack = np.std(h0_jack)*np.sqrt(ndata-1)\<close>
  The fit that fills \<open>h0_jack\<close> is left to the reader of the notebook, so the array of
  leave-one-out estimates is an argument; \<open>ndata - 1\<close> is Python integer arithmetic.
\<close>

definition h0_sigma_jack :: "real list \<Rightarrow> nat \<Rightarrow> real option" where
  "h0_sigma_jack h0_jack ndata =
     nan_mult (np_std h0_jack) (np_sqrt (real_of_int (int ndata - 1)))"

section \<open>Resampling\<close>

text \<open>
  \<open>np.random.randint(low, high, shape)\<close>. The generator's output is the stream
  \<open>draws\<close>; numpy reduces it to integers of \<open>[low, high)\<close>, row by row. An empty
  range raises \<open>ValueError\<close> unless no sample is taken.
\<close>

definition randint :: "(nat \<Rightarrow> nat) \<Rightarrow> nat \<Rightarrow> nat \<Rightarrow> nat \<times> nat \<Rightarrow> py_error + nat list list" where
  "randint draws low high shape =
     (case shape of (N, n) \<Rightarrow>
        if N * n = 0 then Inr (replicate N [])
        else if high \<le> low then Inl ValueError
        else Inr (map (\<lambda>i. map (\<lambda>j. low + draws (i * n + j) mod (high - low)) [0..<n]) [0..<N]))"

text \<open>
  \<open>np.random.choice(a, size=shape, replace=True)\<close> on a 1-D array: random indices into
  \<open>a\<close>, then \<open>a[idx]\<close>. An empty \<open>a\<close> raises \<open>ValueError\<close> unless no sample is taken.
\<close>

definition choice :: "(nat \<Rightarrow> nat) \<Rightarrow> 'a list \<Rightarrow> nat \<times> nat \<Rightarrow> py_error + 'a list list" where
  "choice draws a shape =
     (let pop_size = length a in
      if pop_size = 0 \<and> fst shape * snd shape \<noteq> 0 then Inl ValueError
      else (case randint draws 0 pop_size shape of
              Inl e \<Rightarrow> Inl e
            | Inr idx \<Rightarrow> Inr (map (map (\<lambda>k. a ! k)) idx)))"

text \<open>
  \<^verbatim>\<open>ndata=len(data_modern.h0)\<close>
  \<^verbatim>\<open>nbootstraps=int(1e4)\<close>
  \<^verbatim>\<open>hboot=np.random.choice(data_modern.h0, size=(nbootstraps,ndata), replace=True)\<close>
\<close>

definition hboot :: "(nat \<Rightarrow> nat) \<Rightarrow> 'a list \<Rightarrow> py_error + 'a list list" where
  "hboot draws data_modern_h0 =
     (let ndata = length data_modern_h0;
          nbootstraps = 10000
      in choice draws data_modern_h0 (nbootstraps, ndata))"

text \<open>
  \<^verbatim>\<open>nsims = int(1e4)\<close>
  \<^verbatim>\<open>ndata = len(mu)\<close>
  \<^verbatim>\<open>rand_indices = np.random.randint(0, ndata, (nsims, ndata))\<close>
\<close>

definition rand_indices :: "(nat \<Rightarrow> nat) \<Rightarrow> 'a list \<Rightarrow> py_error + nat list list" where
  "rand_indices draws mu =
     (let nsims = 10000;
          ndata = length mu
      in randint draws 0 ndata (nsims, ndata))"

text \<open>
  \<open>np.zeros((r, c))\<close>, a list of \<open>r\<close> rows; a negative dimension raises
  \<open>ValueError\<close>. The first argument is the float zero.
\<close>

definition np_zeros2 :: "'a \<Rightarrow> int \<Rightarrow> int \<Rightarrow> py_error + 'a list list" where
  "np_zeros2 zero r c =
     (if r < 0 \<or> c < 0 then Inl ValueError
      else Inr (replicate (nat r) (replicate (nat c) zero)))"

text \<open>\<open>np.concatenate((x[:i], x[i+1:]))\<close>; a slice past the end is empty.\<close>

definition leave_one_out :: "'a list \<Rightarrow> nat \<Rightarrow> 'a list" where
  "leave_one_out x i = take i x @ drop (i + 1) x"

text \<open>
  \<open>m[i] = v\<close> on a 2-D array: \<open>IndexError\<close> past the last row; \<open>v\<close> must have the
  row's length, or one element, which numpy repeats along the row; otherwise
  \<open>ValueError\<close>.
\<close>

definition set_row :: "'a list list \<Rightarrow> nat \<Rightarrow> 'a list \<Rightarrow> py_error + 'a list list" where
  "set_row m i v =
     (if length m \<le> i then Inl IndexError
      else if length v = length (m ! i) then Inr (m[i := v])
      else if length v = 1 then Inr (m[i := replicate (length (m ! i)) (hd v)])
      else Inl ValueError)"

text \<open>
  \<^verbatim>\<open>for i in range(0,ndata):\<close>
  \<^verbatim>\<open>    logv_jack[i] = np.concatenate((logv[:i], logv[i+1:]))\<close>
  \<^verbatim>\<open>    mu_jack[i] = np.concatenate((mu[:i], mu[i+1:]))\<close>
  \<^verbatim>\<open>    weight_jack[i] = np.concatenate((weight[:i], weight[i+1:]))\<close>
\<close>

fun jack_loop :: "'a list \<Rightarrow> 'a list \<Rightarrow> 'a list \<Rightarrow> nat list
    \<Rightarrow> 'a list list \<times> 'a list list \<times> 'a list list
    \<Rightarrow> py_error + ('a list list \<times> 'a list list \<times> 'a list list)" where
  "jack_loop logv mu weight [] st = Inr st"
| "jack_loop logv mu weight (i # is) (logv_jack, mu_jack, weight_jack) =
     (case set_row logv_jack i (leave_one_out logv i) of
        Inl e \<Rightarrow> Inl e
      | Inr logv_jack' \<Rightarrow>
     (case set_row mu_jack i (leave_one_out mu i) of
        Inl e \<Rightarrow> Inl e
      | Inr mu_jack' \<Rightarrow>
     (case set_row weight_jack i (leave_one_out weight i) of
        Inl e \<Rightarrow> Inl e
      | Inr weight_jack' \<Rightarrow>
          jack_loop logv mu weight is (logv_jack', mu_jack', weight_jack'))))"

text \<open>
  \<^verbatim>\<open>ndata = len(mu)\<close>
  \<^verbatim>\<open>logv_jack = np.zeros((ndata, ndata-1))\<close>
  \<^verbatim>\<open>mu_jack = np.zeros((ndata, ndata-1))\<close>
  \<^verbatim>\<open>weight_jack = np.zeros((ndata, ndata-1))\<close>
  followed by the loop above.
\<close>

definition jackknife_subsets :: "'a \<Rightarrow> 'a list \<Rightarrow> 'a list \<Rightarrow> 'a list
    \<Rightarrow> py_error + ('a list list \<times> 'a list list \<times> 'a list list)" where
  "jackknife_subsets zero logv mu weight =
     (let ndata = int (length mu) in
      case np_zeros2 zero ndata (ndata - 1) of
        Inl e \<Rightarrow> Inl e
      | Inr logv_jack \<Rightarrow>
     (case np_zeros2 zero ndata (ndata - 1) of
        Inl e \<Rightarrow> Inl e
      | Inr mu_jack \<Rightarrow>
     (case np_zeros2 zero ndata (ndata - 1) of
        Inl e \<Rightarrow> Inl e
      | Inr weight_jack \<Rightarrow>
          jack_loop logv mu weight [0..<nat ndata] (logv_jack, mu_jack, weight_jack))))"

text \<open>
  \<^verbatim>\<open>cz=data['cz']\<close>
  \<^verbatim>\<open>logv = np.log10(data['cz'])\<close>
  \<^verbatim>\<open>mu=data['mu']\<close>
  \<^verbatim>\<open>sigma_mu=data['sigma_mu']\<close>
  \<^verbatim>\<open>weight = 1/sigma_mu**2\<close>
\<close>

definition np_log10 :: "'f kernels \<Rightarrow> 'f list \<Rightarrow> 'f list" where
  "np_log10 k xs = map (k_log10 k) xs"

definition inv_square :: "'f kernels \<Rightarrow> 'f list \<Rightarrow> 'f list" where
  "inv_square k xs = map (\<lambda>x. k_div k (k_lit k 1) (k_pow k x (k_lit k 2))) xs"

definition sn_columns :: "'f kernels \<Rightarrow> 'f sn_row list
    \<Rightarrow> 'f list \<times> 'f list \<times> 'f list \<times> 'f list \<times> 'f list" where
  "sn_columns k data =
     (let cz = map row_cz data;
          logv = np_log10 k (map row_cz data);
          mu = map row_mu data;
          sigma_mu = map row_sigma_mu data;
          weight = inv_square k sigma_mu
      in (cz, logv, mu, sigma_mu, weight))"

text \<open>
  \<^verbatim>\<open>data_modern = data.query('date>2001')\<close>
  The rows whose date is above 2001, in their order.
\<close>

definition query_date :: "'f kernels \<Rightarrow> 'f hubble_row list \<Rightarrow> 'f hubble_row list" where
  "query_date k data = filter (\<lambda>r. k_gt k (date r) (k_lit k 2001)) data"

text \<open>Rows of one length.\<close>

definition rect :: "nat \<Rightarrow> 'a list list \<Rightarrow> bool" where
  "rect c m = (\<forall>r \<in> set m. length r = c)"

text \<open>
  The kernels of exact real arithmetic, for inputs on which numpy's result is a number:
  non-empty arrays, positive arguments of the logarithm, positive bases of a power,
  non-zero divisors, non-negative arguments of the square root.
\<close>

definition num :: "real option \<Rightarrow> real" where
  "num r = (case r of None \<Rightarrow> 0 | Some x \<Rightarrow> x)"

definition exact :: "real kernels" where
  "exact =
     \<lparr>k_lit = (\<lambda>x. x), k_gt = (\<lambda>a b. b < a),
      k_add = (\<lambda>a b. a + b), k_sub = (\<lambda>a b. a - b), k_mul = (\<lambda>a b. a * b),
      k_div = (\<lambda>a b. a / b), k_pow = (\<lambda>a b. a powr b),
      k_log10 = (\<lambda>x. log 10 x), k_sqrt = sqrt,
      k_mean = (\<lambda>xs. num (np_mean xs)), k_median = (\<lambda>xs. num (np_median xs)),
      k_std = (\<lambda>xs. num (np_std xs))\<rparr>"


section \<open>Numeric functions as binary64 computes them\<close>

text \<open>
  numpy's and Python's floats are IEEE 754 binary64 numbers. A finite double is a number
  \<open>m * 2 ^ q\<close> with an integer \<open>m\<close> of magnitude below \<open>2 ^ 53\<close> and \<open>q \<ge> - 1074\<close>.
  An arithmetic operation returns the double nearest to its exact result, a tie going to
  the even \<open>m\<close>.

  \<open>rhe\<close> rounds to the nearest integer, a tie to the even one. \<open>qexp x\<close> is the exponent
  \<open>q\<close> of the doubles around \<open>x\<close>: \<open>e - 52\<close> when \<open>2 ^ e \<le> \<bar>x\<bar> < 2 ^ (e + 1)\<close>, and
  \<open>- 1074\<close> in the subnormal range. \<open>b64 x\<close> is the double nearest to \<open>x\<close>.

  The exponent has no upper end here: a result of magnitude \<open>2 ^ 1024\<close> or more, which
  binary64 replaces by an infinity, is outside this model, as are \<open>nan\<close> operands; the
  two zeros are one number.
\<close>

definition rhe :: "real \<Rightarrow> int" where
  "rhe y =
     (let f = \<lfloor>y\<rfloor> in
      if y - of_int f < 1 / 2 then f
      else if 1 / 2 < y - of_int f then f + 1
      else if even f then f else f + 1)"

definition qexp :: "real \<Rightarrow> int" where
  "qexp x = max (\<lfloor>log 2 \<bar>x\<bar>\<rfloor> - 52) (- 1074)"

definition b64 :: "real \<Rightarrow> real" where
  "b64 x =
     (if x = 0 then 0
      else sgn x * (of_int (rhe (\<bar>x\<bar> / 2 powr of_int (qexp x))) * 2 powr of_int (qexp x)))"




text \<open>
  \<^verbatim>\<open>def int_to_H0(b): return(10**(-0.2*b) * 10**5)\<close>
  The literal \<open>0.2\<close> is the double nearest to it; the product with \<open>b\<close> is rounded; the
  power is computed by the C library, which returns a double close to the exact power
  but not always the nearest one: \<open>pow10 x\<close> stands for the double the library returns
  for \<open>10 ** x\<close>; the product with \<open>10 ** 5\<close>, an integer that is a double, is rounded.
\<close>

definition int_to_H0_b64 :: "(real \<Rightarrow> real) \<Rightarrow> real \<Rightarrow> real" where
  "int_to_H0_b64 pow10 b = b64 (pow10 (b64 (- b64 0.2 * b)) * 10 ^ 5)"

text \<open>
  \<^verbatim>\<open>h0_best_err = (int_to_H0(intercept_best-intercept_err_best)-int_to_H0(intercept_best+intercept_err_best))/2\<close>
\<close>

definition h0_best_err_b64 :: "(real \<Rightarrow> real) \<Rightarrow> real \<Rightarrow> real \<Rightarrow> real" where
  "h0_best_err_b64 pow10 intercept_best intercept_err_best =
     b64 (b64 (int_to_H0_b64 pow10 (b64 (intercept_best - intercept_err_best))
               - int_to_H0_b64 pow10 (b64 (intercept_best + intercept_err_best))) / 2)"

text \<open>A power that returns the double nearest to the exact power, for examples.\<close>

definition pow10_nearest :: "real \<Rightarrow> real" where
  "pow10_nearest x = b64 (10 powr x)"

text \<open>
  The double nearest to \<open>1e-20\<close>; the double nearest to \<open>60.2\<close>, and the next double
  above it.
\<close>

definition d_1e_20 :: real where
  "d_1e_20 = 6646139978924579 / 2 ^ 119"



section \<open>The kernel session as a store\<close>

text \<open>
  \<open>pd.read_fwf\<close> reads a text file of any layout as a table. A table is one of the
  layout of \<open>hubble_trim.dat\<close>, one of the layout of \<open>sndata.txt\<close>, or a table with
  other columns (\<open>Frame\<close>), given by its numeric columns and their names: a file that
  holds the single line \<open>?\<close>, for one, is read without an exception, as a table with
  one column named \<open>?\<close> and no rows.
\<close>

datatype 'f table =
    Hubble "'f hubble_row list"
  | SN "'f sn_row list"
  | Frame "(string \<times> 'f list) list"

text \<open>
  A Python name holds a reference to an object or an immutable scalar. Objects live on
  a heap: tables, a \<open>Series\<close> that is a view of a table's column
  (\<open>data['cz']\<close> shares the table's data), arrays that own their data (a 2-D array is
  the list of its rows), and the integer array of indices. Allocation takes the next
  free address. The random generator is global state: \<open>rng\<close> counts the variates
  consumed.
\<close>

type_synonym addr = nat

datatype 'f obj =
    Table "'f table"
  | View addr string
  | Arr1 "'f list"
  | Arr2 "'f list list"
  | IArr2 "nat list list"

datatype 'f val = Ref addr | IntV int | FloatV 'f | StrV string | FunV

record 'f state =
  env :: "string \<rightharpoonup> 'f val"
  heap :: "addr \<rightharpoonup> 'f obj"
  nxt :: addr
  rng :: nat

text \<open>
  What the session reads from outside: the files, the generator's uniform and normal
  variates, the float kernels and \<open>np.polyfit\<close>. A file that exists is given by what
  the notebook's \<open>read_fwf\<close> call makes of it: the table, or the exception pandas
  raises (\<open>UnicodeDecodeError\<close> on a file that is not text, for one).
\<close>

record 'f world =
  files :: "string \<rightharpoonup> py_error + 'f table"
  entropy :: "nat \<Rightarrow> nat"
  normals :: "nat \<Rightarrow> 'f"
  kern :: "'f kernels"
  polyfit :: "'f list \<Rightarrow> 'f list \<Rightarrow> 'f list \<Rightarrow> py_error + ('f list \<times> 'f list list)"

text \<open>
  A statement maps a state to the exception it raised, if any, and the state it left.
\<close>

type_synonym 'f stmt = "'f world \<Rightarrow> 'f state \<Rightarrow> py_error option \<times> 'f state"

definition init :: "'f state" where
  "init = \<lparr>env = Map.empty, heap = Map.empty, nxt = 0, rng = 0\<rparr>"

definition bind_err :: "py_error + 'a \<Rightarrow> ('a \<Rightarrow> py_error + 'b) \<Rightarrow> py_error + 'b" where
  "bind_err r f = (case r of Inl e \<Rightarrow> Inl e | Inr x \<Rightarrow> f x)"

text \<open>
  Reading a name: \<open>NameError\<close> when it is unbound. Every name of the notebook is only
  ever bound to one kind of value; the readers answer \<open>TypeError\<close> on another kind.
\<close>

definition get_var :: "'f state \<Rightarrow> string \<Rightarrow> py_error + 'f val" where
  "get_var s x = (case env s x of None \<Rightarrow> Inl NameError | Some v \<Rightarrow> Inr v)"

definition get_int :: "'f state \<Rightarrow> string \<Rightarrow> py_error + int" where
  "get_int s x = bind_err (get_var s x) (\<lambda>v. case v of IntV i \<Rightarrow> Inr i | _ \<Rightarrow> Inl TypeError)"

definition get_float :: "'f state \<Rightarrow> string \<Rightarrow> py_error + 'f" where
  "get_float s x = bind_err (get_var s x) (\<lambda>v. case v of FloatV y \<Rightarrow> Inr y | _ \<Rightarrow> Inl TypeError)"

definition get_str :: "'f state \<Rightarrow> string \<Rightarrow> py_error + string" where
  "get_str s x = bind_err (get_var s x) (\<lambda>v. case v of StrV y \<Rightarrow> Inr y | _ \<Rightarrow> Inl TypeError)"

definition get_fun :: "'f state \<Rightarrow> string \<Rightarrow> py_error + unit" where
  "get_fun s x = bind_err (get_var s x) (\<lambda>v. case v of FunV \<Rightarrow> Inr () | _ \<Rightarrow> Inl TypeError)"

definition deref :: "'f state \<Rightarrow> string \<Rightarrow> py_error + addr \<times> 'f obj" where
  "deref s x =
     bind_err (get_var s x) (\<lambda>v.
       case v of
         Ref a \<Rightarrow> (case heap s a of None \<Rightarrow> Inl TypeError | Some ob \<Rightarrow> Inr (a, ob))
       | _ \<Rightarrow> Inl TypeError)"

text \<open>A numeric column of a table, by name; \<open>KeyError\<close> when the table has none of that name.\<close>

definition table_col :: "'f obj \<Rightarrow> string \<Rightarrow> py_error + 'f list" where
  "table_col ob c =
     (case ob of
        Table (Hubble t) \<Rightarrow>
          if c = ''h0'' then Inr (map h0 t)
          else if c = ''ep'' then Inr (map ep t)
          else if c = ''em'' then Inr (map em t)
          else if c = ''date'' then Inr (map date t)
          else Inl KeyError
      | Table (SN t) \<Rightarrow>
          if c = ''cz'' then Inr (map row_cz t)
          else if c = ''mu'' then Inr (map row_mu t)
          else if c = ''sigma_mu'' then Inr (map row_sigma_mu t)
          else Inl KeyError
      | Table (Frame cols) \<Rightarrow>
          (case map_of cols c of None \<Rightarrow> Inl KeyError | Some xs \<Rightarrow> Inr xs)
      | _ \<Rightarrow> Inl TypeError)"

text \<open>\<open>x.c\<close> or \<open>x['c']\<close> read as an array.\<close>

definition column :: "'f state \<Rightarrow> string \<Rightarrow> string \<Rightarrow> py_error + 'f list" where
  "column s x c = bind_err (deref s x) (\<lambda>(a, ob). table_col ob c)"

text \<open>The values of a \<open>Series\<close> variable: its own data, or the column it views.\<close>

definition series :: "'f state \<Rightarrow> string \<Rightarrow> py_error + 'f list" where
  "series s x =
     bind_err (deref s x) (\<lambda>(a, ob).
       case ob of
         Arr1 xs \<Rightarrow> Inr xs
       | View t c \<Rightarrow> (case heap s t of None \<Rightarrow> Inl TypeError | Some tb \<Rightarrow> table_col tb c)
       | _ \<Rightarrow> Inl TypeError)"

definition array1 :: "'f state \<Rightarrow> string \<Rightarrow> py_error + addr \<times> 'f list" where
  "array1 s x =
     bind_err (deref s x) (\<lambda>(a, ob). case ob of Arr1 xs \<Rightarrow> Inr (a, xs) | _ \<Rightarrow> Inl TypeError)"

definition array2 :: "'f state \<Rightarrow> string \<Rightarrow> py_error + addr \<times> 'f list list" where
  "array2 s x =
     bind_err (deref s x) (\<lambda>(a, ob). case ob of Arr2 m \<Rightarrow> Inr (a, m) | _ \<Rightarrow> Inl TypeError)"

text \<open>An array dimension: negative raises \<open>ValueError\<close>.\<close>

definition to_dim :: "int \<Rightarrow> py_error + nat" where
  "to_dim i = (if i < 0 then Inl ValueError else Inr (nat i))"

definition get_shape :: "'f state \<Rightarrow> string \<Rightarrow> string \<Rightarrow> py_error + nat \<times> nat" where
  "get_shape s x y =
     bind_err (get_int s x) (\<lambda>r. bind_err (get_int s y) (\<lambda>c.
     bind_err (to_dim r) (\<lambda>N. bind_err (to_dim c) (\<lambda>n. Inr (N, n)))))"

definition alloc :: "'f obj \<Rightarrow> 'f state \<Rightarrow> addr \<times> 'f state" where
  "alloc ob s = (nxt s, s\<lparr>heap := (heap s)(nxt s \<mapsto> ob), nxt := nxt s + 1\<rparr>)"

definition bind_var :: "string \<Rightarrow> 'f val \<Rightarrow> 'f state \<Rightarrow> 'f state" where
  "bind_var x v s = s\<lparr>env := (env s)(x \<mapsto> v)\<rparr>"

definition assign_new :: "string \<Rightarrow> 'f obj \<Rightarrow> 'f state \<Rightarrow> 'f state" where
  "assign_new x ob s = (case alloc ob s of (a, s') \<Rightarrow> bind_var x (Ref a) s')"

text \<open>
  \<open>x = e\<close>: when \<open>e\<close> raises, nothing is bound and the state is as it was; otherwise
  \<open>x\<close> is bound to the new object, or to the scalar.
\<close>

definition assign_obj :: "string \<Rightarrow> py_error + 'f obj \<Rightarrow> 'f state \<Rightarrow> py_error option \<times> 'f state" where
  "assign_obj x r s = (case r of Inl e \<Rightarrow> (Some e, s) | Inr ob \<Rightarrow> (None, assign_new x ob s))"

definition assign_val :: "string \<Rightarrow> py_error + 'f val \<Rightarrow> 'f state \<Rightarrow> py_error option \<times> 'f state" where
  "assign_val x r s = (case r of Inl e \<Rightarrow> (Some e, s) | Inr v \<Rightarrow> (None, bind_var x v s))"

text \<open>Statements in sequence: the first exception ends the run.\<close>

fun run :: "'f stmt list \<Rightarrow> 'f stmt" where
  "run [] w s = (None, s)"
| "run (st # sts) w s =
     (case st w s of
        (Some e, s') \<Rightarrow> (Some e, s')
      | (None, s') \<Rightarrow> run sts w s')"

text \<open>
  A session runs cells one after another; after a cell that raised, the kernel keeps
  the state the cell left and the next cell runs on it.
\<close>

fun session :: "'f stmt list list \<Rightarrow> 'f world \<Rightarrow> 'f state \<Rightarrow> 'f state" where
  "session [] w s = s"
| "session (c # cs) w s = session cs w (snd (run c w s))"

subsection \<open>Library calls\<close>

text \<open>
  \<open>pd.read_fwf\<close>: a missing file raises \<open>FileNotFoundError\<close>; otherwise the table
  pandas makes of the file, or the exception pandas raises on it.
\<close>

definition read_fwf :: "(string \<rightharpoonup> py_error + 'a) \<Rightarrow> string \<Rightarrow> py_error + 'a" where
  "read_fwf fs filename =
     (case fs filename of None \<Rightarrow> Inl FileNotFoundError | Some r \<Rightarrow> r)"

text \<open>
  \<open>data.query('date>2001')\<close>: the rows whose date is above 2001, as a new table; on a
  table with no \<open>date\<close> column pandas raises \<open>UndefinedVariableError\<close>.
\<close>

definition query_table :: "'f kernels \<Rightarrow> 'f table \<Rightarrow> py_error + 'f table" where
  "query_table k tb =
     (case tb of
        Hubble t \<Rightarrow> Inr (Hubble (query_date k t))
      | SN t \<Rightarrow> Inl UndefinedVariableError
      | Frame cols \<Rightarrow>
          (case map_of cols ''date'' of
             None \<Rightarrow> Inl UndefinedVariableError
           | Some ds \<Rightarrow>
               Inr (Frame (map (\<lambda>(c, xs).
                      (c, map fst (filter (\<lambda>(x, d). k_gt k d (k_lit k 2001)) (zip xs ds))))
                    cols))))"

text \<open>\<open>np.random.randn(N, n)\<close>: the next \<open>N * n\<close> normal variates, row by row.\<close>

definition randn :: "(nat \<Rightarrow> 'f) \<Rightarrow> nat \<times> nat \<Rightarrow> 'f list list" where
  "randn variates shape =
     (case shape of (N, n) \<Rightarrow> map (\<lambda>i. map (\<lambda>j. variates (i * n + j)) [0..<n]) [0..<N])"

text \<open>
  \<open>a + b\<close> on 2-D arrays, with numpy's broadcasting: along each axis the two lengths
  agree or one of them is 1, otherwise \<open>ValueError\<close>. Every 2-D array of the notebook
  has at least one row, so the column count is read off the first row.
\<close>

definition bdim :: "nat \<Rightarrow> nat \<Rightarrow> nat option" where
  "bdim m n = (if m = n then Some m else if m = 1 then Some n else if n = 1 then Some m else None)"

definition shape2 :: "'a list list \<Rightarrow> nat \<times> nat" where
  "shape2 m = (length m, if m = [] then 0 else length (hd m))"

definition get2 :: "'a list list \<Rightarrow> nat \<Rightarrow> nat \<Rightarrow> 'a" where
  "get2 m i j =
     (let (r, c) = shape2 m in m ! (if r = 1 then 0 else i) ! (if c = 1 then 0 else j))"

definition np_add2 :: "('f \<Rightarrow> 'f \<Rightarrow> 'f) \<Rightarrow> 'f list list \<Rightarrow> 'f list list \<Rightarrow> py_error + 'f list list" where
  "np_add2 add a b =
     (case (bdim (fst (shape2 a)) (fst (shape2 b)), bdim (snd (shape2 a)) (snd (shape2 b))) of
        (Some r, Some c) \<Rightarrow>
          Inr (map (\<lambda>i. map (\<lambda>j. add (get2 a i j) (get2 b i j)) [0..<c]) [0..<r])
      | _ \<Rightarrow> Inl ValueError)"

text \<open>
  \<open>int_to_H0\<close> over the kernels: \<^verbatim>\<open>10**(-0.2*b) * 10**5\<close>.
\<close>

definition int_to_H0_f :: "'f kernels \<Rightarrow> 'f \<Rightarrow> 'f" where
  "int_to_H0_f k b =
     k_mul k (k_pow k (k_lit k 10) (k_mul k (k_lit k (- 0.2)) b)) (k_lit k (10 ^ 5))"

subsection \<open>The statements of the notebook\<close>

text \<open>
  One definition per statement that binds a name or writes to an object, in the
  notebook's order. Plotting and printing calls bind nothing and write to nothing, and
  are left out, as are the lines the notebook leaves blank for its reader (marked
  \<open>?\<close> there, or an empty right-hand side).

  \<^verbatim>\<open>data = pd.read_fwf('hubble_trim.dat', widths=..., names=..., skiprows=1)\<close>
\<close>

definition stmt_load_hubble :: "'f stmt" where
  "stmt_load_hubble w s =
     assign_obj ''data''
       (bind_err (read_fwf (files w) ''hubble_trim.dat'') (\<lambda>tb. Inr (Table tb))) s"

text \<open>\<^verbatim>\<open>data_modern = data.query('date>2001')\<close>\<close>

definition stmt_data_modern :: "'f stmt" where
  "stmt_data_modern w s =
     assign_obj ''data_modern''
       (bind_err (deref s ''data'') (\<lambda>(a, ob).
          case ob of
            Table tb \<Rightarrow> bind_err (query_table (kern w) tb) (\<lambda>tb'. Inr (Table tb'))
          | _ \<Rightarrow> Inl TypeError)) s"

text \<open>\<^verbatim>\<open>hdelta_mean = np.mean(data_modern.h0)\<close>\<close>

definition stmt_hdelta_mean :: "'f stmt" where
  "stmt_hdelta_mean w s =
     assign_val ''hdelta_mean''
       (bind_err (column s ''data_modern'' ''h0'') (\<lambda>xs. Inr (FloatV (k_mean (kern w) xs)))) s"

text \<open>\<^verbatim>\<open>ndata=len(data_modern.h0)\<close>\<close>

definition stmt_ndata_h0 :: "'f stmt" where
  "stmt_ndata_h0 w s =
     assign_val ''ndata''
       (bind_err (column s ''data_modern'' ''h0'') (\<lambda>xs. Inr (IntV (int (length xs))))) s"

text \<open>\<^verbatim>\<open>nbootstraps=int(1e4)\<close>\<close>

definition stmt_nbootstraps :: "'f stmt" where
  "stmt_nbootstraps w s = assign_val ''nbootstraps'' (Inr (IntV 10000)) s"

text \<open>
  \<^verbatim>\<open>hboot=np.random.choice(data_modern.h0, size=(nbootstraps,ndata), replace=True)\<close>
  The call consumes one variate per element.
\<close>

definition stmt_hboot :: "'f stmt" where
  "stmt_hboot w s =
     (case bind_err (column s ''data_modern'' ''h0'') (\<lambda>a.
           bind_err (get_shape s ''nbootstraps'' ''ndata'') (\<lambda>shape.
           bind_err (choice (\<lambda>j. entropy w (rng s + j)) a shape) (\<lambda>m. Inr (shape, m)))) of
        Inl e \<Rightarrow> (Some e, s)
      | Inr ((N, n), m) \<Rightarrow> (None, assign_new ''hboot'' (Arr2 m) (s\<lparr>rng := rng s + N * n\<rparr>)))"

text \<open>
  \<^verbatim>\<open>for i in range(0,5): plt.hist(hboot[i,:], ...)\<close>
  The loop binds \<open>i\<close> and reads row \<open>i\<close> of \<open>hboot\<close>.
\<close>

definition stmt_read_row :: "nat \<Rightarrow> 'f stmt" where
  "stmt_read_row i w s =
     (case array2 (bind_var ''i'' (IntV (int i)) s) ''hboot'' of
        Inl e \<Rightarrow> (Some e, bind_var ''i'' (IntV (int i)) s)
      | Inr (a, m) \<Rightarrow>
          (if i < length m then None else Some IndexError, bind_var ''i'' (IntV (int i)) s))"

definition stmt_first_draws :: "'f stmt" where
  "stmt_first_draws w s = run (map stmt_read_row [0..<5]) w s"

text \<open>\<^verbatim>\<open>h0_mean = np.mean(hboot, axis=1)\<close>\<close>

definition stmt_h0_mean :: "'f stmt" where
  "stmt_h0_mean w s =
     assign_obj ''h0_mean''
       (bind_err (array2 s ''hboot'') (\<lambda>(a, m). Inr (Arr1 (map (k_mean (kern w)) m)))) s"

text \<open>
  \<^verbatim>\<open>sboot = hboot + np.random.randn(nbootstraps,ndata)\<close>
  \<open>hboot\<close> is read, then the noise is drawn (which advances the generator), then the
  sum is formed as a new array.
\<close>

definition stmt_sboot :: "'f stmt" where
  "stmt_sboot w s =
     (case bind_err (array2 s ''hboot'') (\<lambda>(a, m).
           bind_err (get_shape s ''nbootstraps'' ''ndata'') (\<lambda>shape. Inr (m, shape))) of
        Inl e \<Rightarrow> (Some e, s)
      | Inr (m, (N, n)) \<Rightarrow>
          assign_obj ''sboot''
            (bind_err (np_add2 (k_add (kern w)) m (randn (\<lambda>j. normals w (rng s + j)) (N, n)))
               (\<lambda>r. Inr (Arr2 r)))
            (s\<lparr>rng := rng s + N * n\<rparr>))"

text \<open>\<^verbatim>\<open>h0_median_smoothed = np.median(sboot, axis=1)\<close>\<close>

definition stmt_h0_median_smoothed :: "'f stmt" where
  "stmt_h0_median_smoothed w s =
     assign_obj ''h0_median_smoothed''
       (bind_err (array2 s ''sboot'') (\<lambda>(a, m). Inr (Arr1 (map (k_median (kern w)) m)))) s"

text \<open>\<^verbatim>\<open>path = ''\<close>\<close>

definition stmt_path :: "'f stmt" where
  "stmt_path w s = assign_val ''path'' (Inr (StrV [])) s"

text \<open>\<^verbatim>\<open>data=pd.read_fwf(path+'sndata.txt')\<close>\<close>

definition stmt_load_sn :: "'f stmt" where
  "stmt_load_sn w s =
     assign_obj ''data''
       (bind_err (get_str s ''path'') (\<lambda>p.
        bind_err (read_fwf (files w) (p @ ''sndata.txt'')) (\<lambda>tb. Inr (Table tb)))) s"

text \<open>
  \<^verbatim>\<open>cz=data['cz']\<close>, \<^verbatim>\<open>mu=data['mu']\<close>, \<^verbatim>\<open>sigma_mu=data['sigma_mu']\<close>:
  a view of the column, when the table has it.
\<close>

definition stmt_view :: "string \<Rightarrow> string \<Rightarrow> 'f stmt" where
  "stmt_view x c w s =
     assign_obj x
       (bind_err (deref s ''data'') (\<lambda>(a, ob).
        bind_err (table_col ob c) (\<lambda>xs. Inr (View a c)))) s"

definition stmt_cz :: "'f stmt" where
  "stmt_cz = stmt_view ''cz'' ''cz''"

definition stmt_mu :: "'f stmt" where
  "stmt_mu = stmt_view ''mu'' ''mu''"

definition stmt_sigma_mu :: "'f stmt" where
  "stmt_sigma_mu = stmt_view ''sigma_mu'' ''sigma_mu''"

text \<open>\<^verbatim>\<open>logv = np.log10(data['cz'])\<close>\<close>

definition stmt_logv :: "'f stmt" where
  "stmt_logv w s =
     assign_obj ''logv''
       (bind_err (column s ''data'' ''cz'') (\<lambda>xs. Inr (Arr1 (np_log10 (kern w) xs)))) s"

text \<open>\<^verbatim>\<open>weight = 1/sigma_mu**2\<close>\<close>

definition stmt_weight :: "'f stmt" where
  "stmt_weight w s =
     assign_obj ''weight''
       (bind_err (series s ''sigma_mu'') (\<lambda>xs. Inr (Arr1 (inv_square (kern w) xs)))) s"

text \<open>\<^verbatim>\<open>coeffs, covar = np.polyfit(logv,mu,1,w=weight,cov=True)\<close>\<close>

definition stmt_polyfit :: "'f stmt" where
  "stmt_polyfit w s =
     (case bind_err (series s ''logv'') (\<lambda>x. bind_err (series s ''mu'') (\<lambda>y.
           bind_err (series s ''weight'') (\<lambda>wt. polyfit w x y wt))) of
        Inl e \<Rightarrow> (Some e, s)
      | Inr (coeffs, covar) \<Rightarrow>
          (None, assign_new ''covar'' (Arr2 covar) (assign_new ''coeffs'' (Arr1 coeffs) s)))"

text \<open>\<^verbatim>\<open>slope_best = coeffs[0]\<close>, \<^verbatim>\<open>intercept_best = coeffs[1]\<close>\<close>

definition stmt_coeff :: "string \<Rightarrow> nat \<Rightarrow> 'f stmt" where
  "stmt_coeff x i w s =
     assign_val x
       (bind_err (array1 s ''coeffs'') (\<lambda>(a, xs).
          if i < length xs then Inr (FloatV (xs ! i)) else Inl IndexError)) s"

definition stmt_slope_best :: "'f stmt" where
  "stmt_slope_best = stmt_coeff ''slope_best'' 0"

definition stmt_intercept_best :: "'f stmt" where
  "stmt_intercept_best = stmt_coeff ''intercept_best'' 1"

text \<open>\<^verbatim>\<open>intercept_err_best = np.sqrt(covar[1,1])\<close>\<close>

definition stmt_intercept_err_best :: "'f stmt" where
  "stmt_intercept_err_best w s =
     assign_val ''intercept_err_best''
       (bind_err (array2 s ''covar'') (\<lambda>(a, m).
          if 1 < length m \<and> 1 < length (m ! 1) then Inr (FloatV (k_sqrt (kern w) (m ! 1 ! 1)))
          else Inl IndexError)) s"

text \<open>\<^verbatim>\<open>def int_to_H0(b): ...\<close> binds the name to the function.\<close>

definition stmt_def_int_to_H0 :: "'f stmt" where
  "stmt_def_int_to_H0 w s = assign_val ''int_to_H0'' (Inr FunV) s"

text \<open>\<^verbatim>\<open>h0_best = int_to_H0(intercept_best)\<close>\<close>

definition stmt_h0_best :: "'f stmt" where
  "stmt_h0_best w s =
     assign_val ''h0_best''
       (bind_err (get_fun s ''int_to_H0'') (\<lambda>_.
        bind_err (get_float s ''intercept_best'') (\<lambda>b. Inr (FloatV (int_to_H0_f (kern w) b))))) s"

text \<open>
  \<^verbatim>\<open>h0_best_err = (int_to_H0(intercept_best-intercept_err_best)-int_to_H0(intercept_best+intercept_err_best))/2\<close>
\<close>

definition stmt_h0_best_err :: "'f stmt" where
  "stmt_h0_best_err w s =
     assign_val ''h0_best_err''
       (bind_err (get_fun s ''int_to_H0'') (\<lambda>_.
        bind_err (get_float s ''intercept_best'') (\<lambda>b.
        bind_err (get_float s ''intercept_err_best'') (\<lambda>e.
          Inr (FloatV (k_div (kern w)
                 (k_sub (kern w) (int_to_H0_f (kern w) (k_sub (kern w) b e))
                                 (int_to_H0_f (kern w) (k_add (kern w) b e)))
                 (k_lit (kern w) 2))))))) s"

text \<open>\<^verbatim>\<open>nsims = int(1e4)\<close>\<close>

definition stmt_nsims :: "'f stmt" where
  "stmt_nsims w s = assign_val ''nsims'' (Inr (IntV 10000)) s"

text \<open>\<^verbatim>\<open>ndata = len(mu)\<close>\<close>

definition stmt_ndata_mu :: "'f stmt" where
  "stmt_ndata_mu w s =
     assign_val ''ndata'' (bind_err (series s ''mu'') (\<lambda>xs. Inr (IntV (int (length xs))))) s"

text \<open>\<^verbatim>\<open>rand_indices = np.random.randint(0, ndata, (nsims, ndata))\<close>\<close>

definition stmt_rand_indices :: "'f stmt" where
  "stmt_rand_indices w s =
     (case bind_err (get_shape s ''nsims'' ''ndata'') (\<lambda>shape.
           bind_err (randint (\<lambda>j. entropy w (rng s + j)) 0 (snd shape) shape) (\<lambda>idx.
             Inr (shape, idx))) of
        Inl e \<Rightarrow> (Some e, s)
      | Inr ((N, n), idx) \<Rightarrow>
          (None, assign_new ''rand_indices'' (IArr2 idx) (s\<lparr>rng := rng s + N * n\<rparr>)))"

text \<open>
  \<^verbatim>\<open>h0_boot = np.zeros(nsims)\<close>, \<^verbatim>\<open>intercept_arr = np.zeros(nsims)\<close>,
  \<^verbatim>\<open>slope_arr = np.zeros(nsims)\<close>, \<^verbatim>\<open>h0_jack = np.zeros(ndata-1)\<close>,
  \<^verbatim>\<open>h0_jack = np.zeros(ndata)\<close>: \<open>x = np.zeros(y + d)\<close>.
\<close>

definition stmt_zeros1 :: "string \<Rightarrow> string \<Rightarrow> int \<Rightarrow> 'f stmt" where
  "stmt_zeros1 x y d w s =
     assign_obj x
       (bind_err (get_int s y) (\<lambda>i. bind_err (to_dim (i + d)) (\<lambda>n.
          Inr (Arr1 (replicate n (k_lit (kern w) 0)))))) s"

text \<open>
  \<^verbatim>\<open>logv_jack = np.zeros((ndata, ndata-1))\<close>, and the same for \<open>mu_jack\<close> and
  \<open>weight_jack\<close>.
\<close>

definition stmt_zeros2 :: "string \<Rightarrow> 'f stmt" where
  "stmt_zeros2 x w s =
     assign_obj x
       (bind_err (get_int s ''ndata'') (\<lambda>i.
        bind_err (np_zeros2 (k_lit (kern w) 0) i (i - 1)) (\<lambda>m. Inr (Arr2 m)))) s"

text \<open>
  \<^verbatim>\<open>logv_jack[i] = np.concatenate((logv[:i], logv[i+1:]))\<close>, and the same for \<open>mu\<close>
  and \<open>weight\<close>: the right-hand side is evaluated, then row \<open>i\<close> of the array that the
  target names is overwritten in place.
\<close>

definition stmt_set_row :: "string \<Rightarrow> string \<Rightarrow> nat \<Rightarrow> 'f stmt" where
  "stmt_set_row target col i w s =
     (case bind_err (series s col) (\<lambda>x. bind_err (array2 s target) (\<lambda>(a, m).
           bind_err (set_row m i (leave_one_out x i)) (\<lambda>m'. Inr (a, m')))) of
        Inl e \<Rightarrow> (Some e, s)
      | Inr (a, m') \<Rightarrow> (None, s\<lparr>heap := (heap s)(a \<mapsto> Arr2 m')\<rparr>))"

text \<open>A \<open>for i in range(0,ndata)\<close> loop: the range is read once; each turn binds \<open>i\<close>.\<close>

definition stmt_bind_i :: "nat \<Rightarrow> 'f stmt" where
  "stmt_bind_i i w s = assign_val ''i'' (Inr (IntV (int i))) s"

definition for_range :: "(nat \<Rightarrow> 'f stmt list) \<Rightarrow> 'f stmt" where
  "for_range body w s =
     (case get_int s ''ndata'' of
        Inl e \<Rightarrow> (Some e, s)
      | Inr n \<Rightarrow> run (concat (map (\<lambda>i. stmt_bind_i i # body i) [0..<nat n])) w s)"

definition jack_body :: "nat \<Rightarrow> 'f stmt list" where
  "jack_body i = [stmt_set_row ''logv_jack'' ''logv'' i,
                  stmt_set_row ''mu_jack'' ''mu'' i,
                  stmt_set_row ''weight_jack'' ''weight'' i]"

definition stmt_jack_loop :: "'f stmt" where
  "stmt_jack_loop = for_range jack_body"

text \<open>
  \<^verbatim>\<open>h0_jack[i] = int_to_H0(intercept)\<close>
  The fit that binds \<open>intercept\<close> is left to the reader; the statement reads the name.
\<close>

definition stmt_set_h0_jack :: "nat \<Rightarrow> 'f stmt" where
  "stmt_set_h0_jack i w s =
     (case bind_err (get_fun s ''int_to_H0'') (\<lambda>_.
           bind_err (get_float s ''intercept'') (\<lambda>b.
           bind_err (array1 s ''h0_jack'') (\<lambda>(a, xs).
             if i < length xs then Inr (a, xs[i := int_to_H0_f (kern w) b])
             else Inl IndexError))) of
        Inl e \<Rightarrow> (Some e, s)
      | Inr (a, xs') \<Rightarrow> (None, s\<lparr>heap := (heap s)(a \<mapsto> Arr1 xs')\<rparr>))"

definition stmt_h0_jack_loop :: "'f stmt" where
  "stmt_h0_jack_loop = for_range (\<lambda>i. [stmt_set_h0_jack i])"

text \<open>\<^verbatim>\<open>h0_sigma_jack = np.std(h0_jack)*np.sqrt(ndata-1)\<close>\<close>

definition stmt_h0_sigma_jack :: "'f stmt" where
  "stmt_h0_sigma_jack w s =
     assign_val ''h0_sigma_jack''
       (bind_err (array1 s ''h0_jack'') (\<lambda>(a, xs).
        bind_err (get_int s ''ndata'') (\<lambda>n.
          Inr (FloatV (k_mul (kern w) (k_std (kern w) xs)
                 (k_sqrt (kern w) (k_lit (kern w) (real_of_int (n - 1))))))))) s"

subsection \<open>The cells\<close>

definition cell_load :: "'f stmt list" where
  "cell_load = [stmt_load_hubble]"

definition cell_cut :: "'f stmt list" where
  "cell_cut = [stmt_data_modern]"

definition cell_hist :: "'f stmt list" where
  "cell_hist = [stmt_hdelta_mean]"

definition cell_boot :: "'f stmt list" where
  "cell_boot = [stmt_ndata_h0, stmt_nbootstraps, stmt_hboot]"

definition cell_draws :: "'f stmt list" where
  "cell_draws = [stmt_first_draws]"

definition cell_mean :: "'f stmt list" where
  "cell_mean = [stmt_h0_mean]"

definition cell_smooth :: "'f stmt list" where
  "cell_smooth = [stmt_sboot, stmt_h0_median_smoothed]"

definition cell_sn :: "'f stmt list" where
  "cell_sn = [stmt_path, stmt_load_sn, stmt_cz, stmt_logv, stmt_mu, stmt_sigma_mu, stmt_weight,
              stmt_polyfit, stmt_slope_best, stmt_intercept_best, stmt_intercept_err_best,
              stmt_def_int_to_H0, stmt_h0_best, stmt_h0_best_err]"

definition cell_fit :: "'f stmt list" where
  "cell_fit = [stmt_nsims, stmt_ndata_mu, stmt_rand_indices,
               stmt_zeros1 ''h0_boot'' ''nsims'' 0, stmt_zeros1 ''intercept_arr'' ''nsims'' 0,
               stmt_zeros1 ''slope_arr'' ''nsims'' 0]"

text \<open>The jackknife cell: the statements that fill the three arrays, then the estimate.\<close>

definition cell_jack_fill :: "'f stmt list" where
  "cell_jack_fill = [stmt_ndata_mu, stmt_zeros2 ''logv_jack'', stmt_zeros2 ''mu_jack'',
                     stmt_zeros2 ''weight_jack'', stmt_zeros1 ''h0_jack'' ''ndata'' (- 1),
                     stmt_jack_loop]"

definition cell_jack :: "'f stmt list" where
  "cell_jack = cell_jack_fill @
               [stmt_zeros1 ''h0_jack'' ''ndata'' 0, stmt_h0_jack_loop, stmt_h0_sigma_jack]"

definition notebook :: "'f stmt list list" where
  "notebook = [cell_load, cell_cut, cell_hist, cell_boot, cell_draws, cell_mean, cell_smooth,
               cell_sn, cell_fit, cell_jack]"

subsection \<open>What a step may change\<close>

text \<open>
  Every address from \<open>nxt\<close> on is free.
\<close>

definition heap_wf :: "'f state \<Rightarrow> bool" where
  "heap_wf s = (\<forall>a. nxt s \<le> a \<longrightarrow> heap s a = None)"

definition array_obj :: "'f obj \<Rightarrow> bool" where
  "array_obj ob = (case ob of Arr1 xs \<Rightarrow> True | Arr2 m \<Rightarrow> True | _ \<Rightarrow> False)"

definition table_obj :: "'f obj \<Rightarrow> bool" where
  "table_obj ob = (case ob of Table tb \<Rightarrow> True | _ \<Rightarrow> False)"

text \<open>
  \<open>kept s s'\<close>: from \<open>s\<close> to \<open>s'\<close> objects were only added, except that an array that
  owns its data may have been overwritten by an array.
\<close>

definition kept :: "'f state \<Rightarrow> 'f state \<Rightarrow> bool" where
  "kept s s' =
     (nxt s \<le> nxt s' \<and> heap_wf s'
      \<and> (\<forall>a ob. heap s a = Some ob \<longrightarrow>
            heap s' a = Some ob
          \<or> (array_obj ob \<and> (\<exists>ob'. heap s' a = Some ob' \<and> array_obj ob'))))"

definition frames :: "'f stmt \<Rightarrow> bool" where
  "frames st = (\<forall>w s. heap_wf s \<longrightarrow> kept s (snd (st w s)))"

text \<open>
  The state of the jackknife loop: the three targets name the arrays at three addresses,
  and the three columns read as they did.
\<close>

definition jack_inv :: "'f state \<Rightarrow> addr \<times> addr \<times> addr \<Rightarrow> 'f list \<times> 'f list \<times> 'f list
    \<Rightarrow> 'f list list \<times> 'f list list \<times> 'f list list \<Rightarrow> bool" where
  "jack_inv t addrs cols arrs =
     (case addrs of (a1, a2, a3) \<Rightarrow> case cols of (lv, mv, wv) \<Rightarrow> case arrs of (L, M, W) \<Rightarrow>
        env t ''logv_jack'' = Some (Ref a1) \<and> env t ''mu_jack'' = Some (Ref a2)
      \<and> env t ''weight_jack'' = Some (Ref a3)
      \<and> heap t a1 = Some (Arr2 L) \<and> heap t a2 = Some (Arr2 M) \<and> heap t a3 = Some (Arr2 W)
      \<and> series t ''logv'' = Inr lv \<and> series t ''mu'' = Inr mv \<and> series t ''weight'' = Inr wv)"

text \<open>
  A world for examples: two small files of the two layouts, the tables pandas makes of
  them, exact kernels.
\<close>

definition demo_hubble :: "real hubble_row list" where
  "demo_hubble =
     [\<lparr>h0 = 70, ep = 2, em = - 2, date = 2005, meth = ''S'', source = ''a''\<rparr>,
      \<lparr>h0 = 50, ep = 9, em = - 9, date = 1990, meth = ''S'', source = ''b''\<rparr>,
      \<lparr>h0 = 72, ep = 3, em = - 3, date = 2010, meth = ''C'', source = ''c''\<rparr>]"

definition demo_sn :: "real sn_row list" where
  "demo_sn =
     [\<lparr>row_cz = 100, row_mu = 30, row_sigma_mu = 1\<rparr>,
      \<lparr>row_cz = 1000, row_mu = 35, row_sigma_mu = 2\<rparr>]"

definition demo :: "real world" where
  "demo =
     \<lparr>files = [''hubble_trim.dat'' \<mapsto> Inr (Hubble demo_hubble),
               ''sndata.txt'' \<mapsto> Inr (SN demo_sn)],
      entropy = (\<lambda>j. j),
      normals = (\<lambda>j. 1 / 2),
      kern = exact,
      polyfit = (\<lambda>x y wt. Inl LinAlgError)\<rparr>"

text \<open>
  The same world with other files: none; two files that are not text, on which pandas
  raises \<open>UnicodeDecodeError\<close>; and an \<open>sndata.txt\<close> that holds the single line
  \<open>?\<close>, which pandas reads as a table with one column named \<open>?\<close> and no rows.
\<close>

definition demo_no_files :: "real world" where
  "demo_no_files = demo\<lparr>files := Map.empty\<rparr>"

definition demo_not_text :: "real world" where
  "demo_not_text =
     demo\<lparr>files := [''hubble_trim.dat'' \<mapsto> Inl UnicodeDecodeError,
                      ''sndata.txt'' \<mapsto> Inl UnicodeDecodeError]\<rparr>"

definition demo_other_layout :: "real world" where
  "demo_other_layout = demo\<lparr>files := [''sndata.txt'' \<mapsto> Inr (Frame [(''?'', [])])]\<rparr>"

text \<open>A state in which a resample of two rows is bound.\<close>

definition demo_state :: "real state" where
  "demo_state =
     bind_var ''ndata'' (IntV 2)
       (bind_var ''nbootstraps'' (IntV 2)
          (assign_new ''hboot'' (Arr2 [[70, 72], [72, 72]]) init))"

section \<open>Lemmas on resampling\<close>

lemma randint_shape:
  assumes "randint draws low high (N, n) = Inr idx"
  shows "length idx = N" and "\<And>r. r \<in> set idx \<Longrightarrow> length r = n"
    and "\<And>r k. r \<in> set idx \<Longrightarrow> k \<in> set r \<Longrightarrow> low \<le> k \<and> k < high"
proof -
  have bound: "low + x mod (high - low) < high" if "low < high" for x :: nat
  proof -
    have "x mod (high - low) < high - low" using that by simp
    then show ?thesis by linarith
  qed
  show "length idx = N"
    using assms by (auto simp: randint_def split: if_splits)
  show "\<And>r. r \<in> set idx \<Longrightarrow> length r = n"
    using assms by (auto simp: randint_def split: if_splits)
  show "\<And>r k. r \<in> set idx \<Longrightarrow> k \<in> set r \<Longrightarrow> low \<le> k \<and> k < high"
    using assms bound by (auto simp: randint_def split: if_splits)
qed

lemma randint_returns:
  "low < high \<or> N * n = 0 \<Longrightarrow> \<exists>idx. randint draws low high (N, n) = Inr idx"
  by (auto simp: randint_def)

lemma rand_indices_returns: "\<exists>idx. randint draws 0 (length xs) (N, length xs) = Inr idx"
  by (rule randint_returns) (cases xs; simp)

lemma choice_shape:
  assumes "choice draws a (N, n) = Inr m"
  shows "length m = N" and "\<And>r. r \<in> set m \<Longrightarrow> length r = n"
    and "\<And>r. r \<in> set m \<Longrightarrow> set r \<subseteq> set a"
proof -
  from assms obtain idx where idx: "randint draws 0 (length a) (N, n) = Inr idx"
    and m: "m = map (map (\<lambda>k. a ! k)) idx"
    by (auto simp: choice_def Let_def split: if_splits sum.splits)
  show "length m = N" using randint_shape(1)[OF idx] m by simp
  show "\<And>r. r \<in> set m \<Longrightarrow> length r = n" using randint_shape(2)[OF idx] m by auto
  show "\<And>r. r \<in> set m \<Longrightarrow> set r \<subseteq> set a" using randint_shape(3)[OF idx] m by auto
qed

lemma choice_returns: "a \<noteq> [] \<or> N * n = 0 \<Longrightarrow> \<exists>m. choice draws a (N, n) = Inr m"
  using randint_returns[of 0 "length a" N n draws]
  by (auto simp: choice_def Let_def)

lemma hboot_returns: "\<exists>m. hboot draws a = Inr m"
  unfolding hboot_def Let_def
  by (rule choice_returns) (cases a; simp)

lemma length_leave_one_out: "i < length x \<Longrightarrow> length (leave_one_out x i) = length x - 1"
  by (auto simp: leave_one_out_def)

lemma set_row_fits:
  "i < length m \<Longrightarrow> rect c m \<Longrightarrow> length v = c \<Longrightarrow> set_row m i v = Inr (m[i := v])"
  by (simp add: set_row_def rect_def)

lemma rect_update: "rect c m \<Longrightarrow> length v = c \<Longrightarrow> rect c (m[i := v])"
  unfolding rect_def by (metis insert_iff set_update_subset_insert subsetD)

lemma jack_loop_fold:
  assumes "\<forall>i \<in> set is. i < n" "length logv = n" "length mu = n" "length weight = n"
    and "length lj = n" "length mj = n" "length wj = n"
    and "rect (n - 1) lj" "rect (n - 1) mj" "rect (n - 1) wj"
  shows "jack_loop logv mu weight is (lj, mj, wj) =
           Inr (fold (\<lambda>i m. m[i := leave_one_out logv i]) is lj,
                fold (\<lambda>i m. m[i := leave_one_out mu i]) is mj,
                fold (\<lambda>i m. m[i := leave_one_out weight i]) is wj)"
  using assms
proof (induction "is" arbitrary: lj mj wj)
  case Nil
  then show ?case by simp
next
  case (Cons i "is")
  from Cons.prems have i: "i < n" by simp
  have a: "set_row lj i (leave_one_out logv i) = Inr (lj[i := leave_one_out logv i])"
    using Cons.prems i by (intro set_row_fits[where c = "n - 1"]) (simp_all add: length_leave_one_out)
  have b: "set_row mj i (leave_one_out mu i) = Inr (mj[i := leave_one_out mu i])"
    using Cons.prems i by (intro set_row_fits[where c = "n - 1"]) (simp_all add: length_leave_one_out)
  have c: "set_row wj i (leave_one_out weight i) = Inr (wj[i := leave_one_out weight i])"
    using Cons.prems i by (intro set_row_fits[where c = "n - 1"]) (simp_all add: length_leave_one_out)
  have "jack_loop logv mu weight is
          (lj[i := leave_one_out logv i], mj[i := leave_one_out mu i], wj[i := leave_one_out weight i]) =
        Inr (fold (\<lambda>i m. m[i := leave_one_out logv i]) is (lj[i := leave_one_out logv i]),
             fold (\<lambda>i m. m[i := leave_one_out mu i]) is (mj[i := leave_one_out mu i]),
             fold (\<lambda>i m. m[i := leave_one_out weight i]) is (wj[i := leave_one_out weight i]))"
    using Cons.prems i
    by (intro Cons.IH) (simp_all add: rect_update length_leave_one_out)
  then show ?case by (simp add: a b c)
qed

lemma fold_update_upt:
  "k \<le> length m \<Longrightarrow> fold (\<lambda>i m. m[i := f i]) [0..<k] m = map f [0..<k] @ drop k m"
proof (induction k)
  case 0
  then show ?case by simp
next
  case (Suc k)
  then have k: "k < length m" by simp
  have d: "drop k m = m ! k # drop (Suc k) m"
    using k by (simp add: Cons_nth_drop_Suc)
  have "fold (\<lambda>i m. m[i := f i]) [0..<Suc k] m = (map f [0..<k] @ drop k m)[k := f k]"
    using Suc by simp
  also have "\<dots> = map f [0..<k] @ (drop k m)[0 := f k]"
    by (simp add: list_update_append)
  also have "\<dots> = map f [0..<k] @ f k # drop (Suc k) m"
    by (simp add: d)
  finally show ?case by simp
qed

lemma fold_update_all:
  "length m = n \<Longrightarrow> fold (\<lambda>i m. m[i := f i]) [0..<n] m = map f [0..<n]"
  using fold_update_upt[of n m f] by simp

lemma jackknife_subsets_eq:
  assumes "length logv = length mu" "length weight = length mu" "mu \<noteq> []"
  shows "jackknife_subsets zero logv mu weight =
           Inr (map (leave_one_out logv) [0..<length mu],
                map (leave_one_out mu) [0..<length mu],
                map (leave_one_out weight) [0..<length mu])"
proof -
  let ?n = "length mu"
  let ?z = "replicate ?n (replicate (?n - 1) zero)"
  have n: "0 < ?n" using assms by simp
  have z: "np_zeros2 zero (int ?n) (int ?n - 1) = Inr ?z"
    using n by (simp add: np_zeros2_def nat_diff_distrib')
  have "jack_loop logv mu weight [0..<?n] (?z, ?z, ?z) =
           Inr (fold (\<lambda>i m. m[i := leave_one_out logv i]) [0..<?n] ?z,
                fold (\<lambda>i m. m[i := leave_one_out mu i]) [0..<?n] ?z,
                fold (\<lambda>i m. m[i := leave_one_out weight i]) [0..<?n] ?z)"
    using assms by (intro jack_loop_fold[where n = ?n]) (simp_all add: rect_def)
  then show ?thesis
    by (simp add: jackknife_subsets_def z fold_update_all)
qed

section \<open>Lemmas on the statistics\<close>




lemma np_mean_sq_nonneg:
  assumes "np_mean (map (\<lambda>x. \<bar>x - c\<bar> ^ 2) xs) = Some v"
  shows "0 \<le> v"
proof -
  have "0 \<le> sum_list (map (\<lambda>x. \<bar>x - c\<bar> ^ 2) xs)"
    by (rule sum_list_nonneg) auto
  then show ?thesis using assms by (auto simp: np_mean_def split: if_splits)
qed

section \<open>Lemmas on binary64 rounding\<close>

lemma rhe_int: "rhe (of_int k) = k"
  by (simp add: rhe_def)

lemma rhe_mono: "x \<le> y \<Longrightarrow> rhe x \<le> rhe y"
proof -
  assume xy: "x \<le> y"
  have fl: "\<lfloor>x\<rfloor> \<le> \<lfloor>y\<rfloor>" using xy by (rule floor_mono)
  show ?thesis
  proof (cases "\<lfloor>x\<rfloor> = \<lfloor>y\<rfloor>")
    case True
    then show ?thesis using xy by (auto simp: rhe_def Let_def)
  next
    case False
    then have "\<lfloor>x\<rfloor> + 1 \<le> \<lfloor>y\<rfloor>" using fl by simp
    moreover have "rhe x \<le> \<lfloor>x\<rfloor> + 1" by (simp add: rhe_def Let_def)
    moreover have "\<lfloor>y\<rfloor> \<le> rhe y" by (simp add: rhe_def Let_def)
    ultimately show ?thesis by linarith
  qed
qed

lemma rhe_nonneg: "0 \<le> y \<Longrightarrow> 0 \<le> rhe y"
  using rhe_mono[of 0 y] rhe_int[of 0] by simp

lemma qexp_minus: "qexp (- x) = qexp x"
  by (simp add: qexp_def)

lemma b64_minus: "b64 (- x) = - b64 x"
  by (simp add: b64_def qexp_minus sgn_minus)

lemma b64_pos: "0 < x \<Longrightarrow> b64 x = of_int (rhe (x / 2 powr of_int (qexp x))) * 2 powr of_int (qexp x)"
  by (simp add: b64_def)

lemma b64_nonneg: "0 \<le> x \<Longrightarrow> 0 \<le> b64 x"
proof (cases "x = 0")
  case True
  then show ?thesis by (simp add: b64_def)
next
  case False
  assume "0 \<le> x"
  with False have x: "0 < x" by simp
  have "0 \<le> rhe (x / 2 powr of_int (qexp x))" using x by (intro rhe_nonneg) simp
  then show ?thesis using x by (simp add: b64_pos)
qed

lemma expo_bounds:
  assumes "0 < x"
  shows "2 powr of_int \<lfloor>log 2 x\<rfloor> \<le> x" and "x < 2 powr of_int (\<lfloor>log 2 x\<rfloor> + 1)"
  using floor_log_eq_powr_iff[of x 2 "\<lfloor>log 2 x\<rfloor>"] assms by simp_all

lemma expo_mono: "0 < x \<Longrightarrow> x \<le> y \<Longrightarrow> \<lfloor>log 2 x\<rfloor> \<le> \<lfloor>log 2 y\<rfloor>"
  by (intro floor_mono) simp

lemma two_powr_int: "0 \<le> n \<Longrightarrow> (2::real) powr of_int n = of_int (2 ^ nat n)"
  by (simp add: powr_real_of_int)

lemma rhe_le_int: "y \<le> of_int N \<Longrightarrow> rhe y \<le> N"
  using rhe_mono[of y "of_int N"] by (simp add: rhe_int)

lemma int_le_rhe: "of_int N \<le> y \<Longrightarrow> N \<le> rhe y"
  using rhe_mono[of "of_int N" y] by (simp add: rhe_int)

lemma power_split:
  assumes "q \<le> k"
  obtains N :: int where "(2::real) powr of_int k = of_int N * 2 powr of_int q"
proof
  have "(2::real) powr of_int k = 2 powr of_int (k - q) * 2 powr of_int q"
    by (simp add: powr_add[symmetric])
  also have "(2::real) powr of_int (k - q) = of_int (2 ^ nat (k - q))"
    using assms by (intro two_powr_int) simp
  finally show "(2::real) powr of_int k = of_int (2 ^ nat (k - q)) * 2 powr of_int q" .
qed

lemma b64_le_power:
  assumes x: "0 < x" and le: "x \<le> 2 powr of_int k" and q: "qexp x \<le> k"
  shows "b64 x \<le> 2 powr of_int k"
proof -
  let ?Q = "(2::real) powr of_int (qexp x)"
  have Q: "0 < ?Q" by simp
  from q obtain N :: int where N: "(2::real) powr of_int k = of_int N * ?Q"
    by (rule power_split)
  have "x / ?Q \<le> of_int N" using le N Q by (simp add: pos_divide_le_eq)
  then have "rhe (x / ?Q) \<le> N" by (rule rhe_le_int)
  then have "real_of_int (rhe (x / ?Q)) \<le> of_int N" by (simp only: of_int_le_iff)
  then have "real_of_int (rhe (x / ?Q)) * ?Q \<le> of_int N * ?Q"
    using Q by (intro mult_right_mono) simp_all
  then show ?thesis using x N by (simp add: b64_pos)
qed

lemma power_le_b64:
  assumes x: "0 < x" and le: "2 powr of_int k \<le> x" and q: "qexp x \<le> k"
  shows "2 powr of_int k \<le> b64 x"
proof -
  let ?Q = "(2::real) powr of_int (qexp x)"
  have Q: "0 < ?Q" by simp
  from q obtain N :: int where N: "(2::real) powr of_int k = of_int N * ?Q"
    by (rule power_split)
  have "of_int N \<le> x / ?Q" using le N Q by (simp add: pos_le_divide_eq)
  then have "N \<le> rhe (x / ?Q)" by (rule int_le_rhe)
  then have "real_of_int N \<le> of_int (rhe (x / ?Q))" by (simp only: of_int_le_iff)
  then have "of_int N * ?Q \<le> real_of_int (rhe (x / ?Q)) * ?Q"
    using Q by (intro mult_right_mono) simp_all
  then show ?thesis using x N by (simp add: b64_pos)
qed

lemma b64_mono_pos:
  assumes x: "0 < x" and xy: "x \<le> y"
  shows "b64 x \<le> b64 y"
proof -
  have y: "0 < y" using x xy by simp
  have e: "\<lfloor>log 2 x\<rfloor> \<le> \<lfloor>log 2 y\<rfloor>" using x xy by (rule expo_mono)
  have qx: "qexp x = max (\<lfloor>log 2 x\<rfloor> - 52) (- 1074)" using x by (simp add: qexp_def)
  have qy: "qexp y = max (\<lfloor>log 2 y\<rfloor> - 52) (- 1074)" using y by (simp add: qexp_def)
  show ?thesis
  proof (cases "qexp x = qexp y")
    case True
    have "x / 2 powr of_int (qexp y) \<le> y / 2 powr of_int (qexp y)"
      using xy by (simp add: divide_right_mono)
    then have "rhe (x / 2 powr of_int (qexp y)) \<le> rhe (y / 2 powr of_int (qexp y))"
      by (rule rhe_mono)
    then have "real_of_int (rhe (x / 2 powr of_int (qexp y))) * 2 powr of_int (qexp y)
        \<le> real_of_int (rhe (y / 2 powr of_int (qexp y))) * 2 powr of_int (qexp y)"
      by (intro mult_right_mono) simp_all
    then show ?thesis using x y True by (simp add: b64_pos)
  next
    case False
    let ?k = "\<lfloor>log 2 y\<rfloor>"
    from False qx qy e have lt: "\<lfloor>log 2 x\<rfloor> + 1 \<le> ?k" and qk: "qexp x \<le> ?k" "qexp y \<le> ?k"
      by linarith+
    have "x < 2 powr of_int (\<lfloor>log 2 x\<rfloor> + 1)" using x by (rule expo_bounds)
    also have "\<dots> \<le> 2 powr of_int ?k" using lt by simp
    finally have "x \<le> 2 powr of_int ?k" by simp
    then have "b64 x \<le> 2 powr of_int ?k" using x qk(1) by (intro b64_le_power)
    moreover have "2 powr of_int ?k \<le> y" using y by (rule expo_bounds)
    then have "2 powr of_int ?k \<le> b64 y" using y qk(2) by (intro power_le_b64)
    ultimately show ?thesis by linarith
  qed
qed

lemma b64_mono: "x \<le> y \<Longrightarrow> b64 x \<le> b64 y"
proof -
  assume xy: "x \<le> y"
  consider (pos) "0 < x" | (mid) "x \<le> 0" "0 \<le> y" | (neg) "y < 0" by linarith
  then show ?thesis
  proof cases
    case pos
    then show ?thesis using xy by (rule b64_mono_pos)
  next
    case mid
    have "0 \<le> b64 (- x)" using mid(1) by (intro b64_nonneg) simp
    then have "b64 x \<le> 0" by (simp add: b64_minus)
    moreover have "0 \<le> b64 y" using mid(2) by (rule b64_nonneg)
    ultimately show ?thesis by linarith
  next
    case neg
    have "b64 (- y) \<le> b64 (- x)" using neg xy by (intro b64_mono_pos) simp_all
    then show ?thesis by (simp add: b64_minus)
  qed
qed


lemma rhe_cert:
  assumes "\<bar>y - of_int m\<bar> < 1 / 2 \<or> (\<bar>y - of_int m\<bar> = 1 / 2 \<and> even m)"
  shows "rhe y = m"
proof -
  from assms consider (a) "\<bar>y - of_int m\<bar> < 1 / 2" | (b) "\<bar>y - of_int m\<bar> = 1 / 2" "even m"
    by blast
  then show ?thesis
  proof cases
    case a
    show ?thesis
    proof (cases "of_int m \<le> y")
      case True
      then have "\<lfloor>y\<rfloor> = m" using a by (intro floor_unique) auto
      then show ?thesis using a True by (simp add: rhe_def Let_def)
    next
      case False
      then have "\<lfloor>y\<rfloor> = m - 1" using a by (intro floor_unique) auto
      then show ?thesis using a False by (simp add: rhe_def Let_def)
    qed
  next
    case b
    show ?thesis
    proof (cases "of_int m \<le> y")
      case True
      then have "\<lfloor>y\<rfloor> = m" using b by (intro floor_unique) auto
      then show ?thesis using b True by (simp add: rhe_def Let_def)
    next
      case False
      then have "\<lfloor>y\<rfloor> = m - 1" using b by (intro floor_unique) auto
      then show ?thesis using b False by (simp add: rhe_def Let_def)
    qed
  qed
qed

lemma b64_cert:
  assumes "0 < x" "2 powr of_int e \<le> x" "x < 2 powr of_int (e + 1)"
    and "q = max (e - 52) (- 1074)"
    and "\<bar>x / 2 powr of_int q - of_int m\<bar> < 1 / 2
         \<or> (\<bar>x / 2 powr of_int q - of_int m\<bar> = 1 / 2 \<and> even m)"
  shows "b64 x = of_int m * 2 powr of_int q"
proof -
  have "\<lfloor>log 2 x\<rfloor> = e" using assms(1-3) by (simp add: floor_log_eq_powr_iff)
  then have "qexp x = q" using assms(1,4) by (simp add: qexp_def)
  moreover have "rhe (x / 2 powr of_int q) = m" using assms(5) by (rule rhe_cert)
  ultimately show ?thesis using assms(1) by (simp add: b64_pos)
qed

lemma b64_0: "b64 0 = 0"
  by (simp add: b64_def)









text \<open>
  With a power that is monotone, \<open>int_to_H0\<close> in binary64 does not increase, and the
  symmetric error is not negative.
\<close>

lemma int_to_H0_b64_antimono:
  assumes "mono pow10" "b1 \<le> b2"
  shows "int_to_H0_b64 pow10 b2 \<le> int_to_H0_b64 pow10 b1"
proof -
  have "0 \<le> b64 0.2" by (rule b64_nonneg) simp
  then have "- b64 0.2 * b2 \<le> - b64 0.2 * b1"
    using assms(2) by (simp add: mult_left_mono)
  then have "b64 (- b64 0.2 * b2) \<le> b64 (- b64 0.2 * b1)" by (rule b64_mono)
  then have "pow10 (b64 (- b64 0.2 * b2)) \<le> pow10 (b64 (- b64 0.2 * b1))"
    by (rule monoD[OF assms(1)])
  then have "pow10 (b64 (- b64 0.2 * b2)) * 10 ^ 5 \<le> pow10 (b64 (- b64 0.2 * b1)) * 10 ^ 5"
    by simp
  then show ?thesis unfolding int_to_H0_b64_def by (rule b64_mono)
qed

lemma h0_best_err_b64_nonneg:
  assumes "mono pow10" "0 \<le> e"
  shows "0 \<le> h0_best_err_b64 pow10 b e"
proof -
  have "b64 (b - e) \<le> b64 (b + e)" using assms(2) by (intro b64_mono) simp
  then have "int_to_H0_b64 pow10 (b64 (b + e)) \<le> int_to_H0_b64 pow10 (b64 (b - e))"
    using assms(1) by (intro int_to_H0_b64_antimono)
  then have "0 \<le> b64 (int_to_H0_b64 pow10 (b64 (b - e)) - int_to_H0_b64 pow10 (b64 (b + e)))"
    by (intro b64_nonneg) simp
  then show ?thesis unfolding h0_best_err_b64_def by (intro b64_nonneg) simp
qed

lemma b64_fifth: "b64 0.2 = 3602879701896397 / 2 ^ 54"
proof -
  have "b64 0.2 = of_int 7205759403792794 * 2 powr of_int (- 55)"
    by (rule b64_cert[where e = "- 3"]) (simp_all add: powr_minus)
  then show ?thesis by (simp add: powr_minus)
qed

lemma b64_prod_6: "b64 (3602879701896397 / 2 ^ 54 * 6) = 5404319552844596 / 2 ^ 52"
proof -
  have "b64 (3602879701896397 / 2 ^ 54 * 6) = of_int 5404319552844596 * 2 powr of_int (- 52)"
    by (rule b64_cert[where e = 0]) (simp_all add: powr_minus)
  then show ?thesis by (simp add: powr_minus)
qed

lemma b64_prod_6_next:
  "b64 (3602879701896397 / 2 ^ 54 * (6 + 1 / 2 ^ 50)) = 5404319552844596 / 2 ^ 52"
proof -
  have "b64 (3602879701896397 / 2 ^ 54 * (6 + 1 / 2 ^ 50))
      = of_int 5404319552844596 * 2 powr of_int (- 52)"
    by (rule b64_cert[where e = 0]) (simp_all add: powr_minus)
  then show ?thesis by (simp add: powr_minus)
qed

lemma b64_6_next: "b64 (6 + 1 / 2 ^ 50) = 6 + 1 / 2 ^ 50"
proof -
  have "b64 (6 + 1 / 2 ^ 50) = of_int 6755399441055745 * 2 powr of_int (- 50)"
    by (rule b64_cert[where e = 2]) (simp_all add: powr_minus)
  then show ?thesis by (simp add: powr_minus)
qed

lemma b64_1e_20: "b64 (1 / 10 ^ 20) = d_1e_20"
proof -
  have "b64 (1 / 10 ^ 20) = of_int 6646139978924579 * 2 powr of_int (- 119)"
    by (rule b64_cert[where e = "- 67"]) (simp_all add: powr_minus)
  then show ?thesis by (simp add: powr_minus d_1e_20_def)
qed

lemma b64_d_1e_20: "b64 d_1e_20 = d_1e_20"
proof -
  have "b64 (6646139978924579 / 2 ^ 119) = of_int 6646139978924579 * 2 powr of_int (- 119)"
    by (rule b64_cert[where e = "- 67"]) (simp_all add: powr_minus)
  then show ?thesis by (simp add: powr_minus d_1e_20_def)
qed

lemma b64_4_minus: "b64 (4 - d_1e_20) = 4"
proof -
  have "b64 (4 - 6646139978924579 / 2 ^ 119) = of_int 9007199254740992 * 2 powr of_int (- 51)"
    by (rule b64_cert[where e = 1]) (simp_all add: powr_minus)
  then show ?thesis by (simp add: powr_minus d_1e_20_def)
qed

lemma b64_4_plus: "b64 (4 + d_1e_20) = 4"
proof -
  have "b64 (4 + 6646139978924579 / 2 ^ 119) = of_int 4503599627370496 * 2 powr of_int (- 50)"
    by (rule b64_cert[where e = 2]) (simp_all add: powr_minus)
  then show ?thesis by (simp add: powr_minus d_1e_20_def)
qed

text \<open>A positive number below half the least positive double rounds to zero.\<close>

lemma b64_underflow:
  assumes "0 < x" "x < 2 powr (- 1075)"
  shows "b64 x = 0"
proof -
  have "log 2 x < - 1075" using assms by (simp add: log_less_iff)
  then have fl: "\<lfloor>log 2 x\<rfloor> \<le> - 1076" by linarith
  have ax: "\<bar>x\<bar> = x" using assms(1) by simp
  have q: "qexp x = - 1074" unfolding qexp_def ax using fl by linarith
  have "(2::real) powr (- 1075) = 2 powr (- 1074) / 2"
    by (simp add: powr_minus field_simps)
  then have "x / 2 powr (- 1074) < 1 / 2" using assms(2) by (simp add: field_simps)
  then have "\<bar>x / 2 powr of_int (- 1074) - of_int 0\<bar> < 1 / 2" using assms(1) by simp
  then have "rhe (x / 2 powr of_int (- 1074)) = 0" by (intro rhe_cert) blast
  then show ?thesis using assms(1) q by (simp add: b64_pos)
qed

lemma b64_prod_2000: "b64 (3602879701896397 / 2 ^ 54 * 2000) = 400"
proof -
  have "b64 (3602879701896397 / 2 ^ 54 * 2000) = of_int 7036874417766400 * 2 powr of_int (- 44)"
    by (rule b64_cert[where e = 8]) (simp_all add: powr_minus)
  then show ?thesis by (simp add: powr_minus)
qed

lemma b64_prod_3000: "b64 (3602879701896397 / 2 ^ 54 * 3000) = 600"
proof -
  have "b64 (3602879701896397 / 2 ^ 54 * 3000) = of_int 5277655813324800 * 2 powr of_int (- 43)"
    by (rule b64_cert[where e = 9]) (simp_all add: powr_minus)
  then show ?thesis by (simp add: powr_minus)
qed

lemma two_1075_less: "(2::real) ^ 1075 < 10 ^ 400"
proof -
  have "((2::real) ^ 43) ^ 25 < (10 ^ 16) ^ 25"
    by (rule power_strict_mono) simp_all
  then show ?thesis by (simp only: power_mult[symmetric]) simp
qed

lemma pow10_nearest_underflow:
  assumes "x \<le> - 400"
  shows "pow10_nearest x = 0"
proof -
  have "(10::real) powr x \<le> 10 powr (- 400)" using assms by simp
  also have "(10::real) powr (- 400) = inverse (10 ^ 400)"
    by (simp only: powr_minus powr_numeral zero_less_numeral)
  also have "\<dots> < inverse (2 ^ 1075)"
    using two_1075_less by (simp only: inverse_less_iff_less zero_less_power zero_less_numeral)
  also have "\<dots> = 2 powr (- 1075)"
    by (simp only: powr_minus powr_numeral zero_less_numeral)
  finally have "(10::real) powr x < 2 powr (- 1075)" .
  then show ?thesis unfolding pow10_nearest_def by (intro b64_underflow) simp_all
qed

text \<open>
  With a power that rounds to nearest, \<open>int_to_H0\<close> underflows to zero at \<open>2000\<close> and at
  \<open>3000\<close>.
\<close>

lemma int_to_H0_b64_underflow:
  "int_to_H0_b64 pow10_nearest 2000 = 0" "int_to_H0_b64 pow10_nearest 3000 = 0"
proof -
  have a: "b64 (- b64 0.2 * 2000) = - 400"
    by (simp only: b64_fifth mult_minus_left b64_minus b64_prod_2000)
  have b: "b64 (- b64 0.2 * 3000) = - 600"
    by (simp only: b64_fifth mult_minus_left b64_minus b64_prod_3000)
  show "int_to_H0_b64 pow10_nearest 2000 = 0"
    unfolding int_to_H0_b64_def a by (simp add: pow10_nearest_underflow b64_0)
  show "int_to_H0_b64 pow10_nearest 3000 = 0"
    unfolding int_to_H0_b64_def b by (simp add: pow10_nearest_underflow b64_0)
qed






lemma mono_pow10_nearest: "mono pow10_nearest"
  unfolding pow10_nearest_def by (intro monoI b64_mono) simp



lemma b64_6: "b64 6 = 6"
proof -
  have "b64 6 = of_int 6755399441055744 * 2 powr of_int (- 50)"
    by (rule b64_cert[where e = 2]) (simp_all add: powr_minus)
  then show ?thesis by (simp add: powr_minus)
qed

lemma b64_4: "b64 4 = 4"
proof -
  have "b64 4 = of_int 4503599627370496 * 2 powr of_int (- 50)"
    by (rule b64_cert[where e = 2]) (simp_all add: powr_minus)
  then show ?thesis by (simp add: powr_minus)
qed

lemma b64_10: "b64 10 = 10"
proof -
  have "b64 10 = of_int 5629499534213120 * 2 powr of_int (- 49)"
    by (rule b64_cert[where e = 3]) (simp_all add: powr_minus)
  then show ?thesis by (simp add: powr_minus)
qed

lemma b64_100000: "b64 100000 = 100000"
proof -
  have "b64 100000 = of_int 6871947673600000 * 2 powr of_int (- 36)"
    by (rule b64_cert[where e = 16]) (simp_all add: powr_minus)
  then show ?thesis by (simp add: powr_minus)
qed

text \<open>
  \<open>int_to_H0_b64\<close> is the function of the store model, \<open>int_to_H0_f\<close>, over kernels that
  round each product to the nearest double and take their power from \<open>pow10\<close>.
\<close>

lemma int_to_H0_f_b64:
  assumes "k_lit k = b64" "k_mul k = (\<lambda>x y. b64 (x * y))" "k_pow k 10 = pow10"
  shows "int_to_H0_f k b = int_to_H0_b64 pow10 b"
proof -
  have "b64 (- 0.2) = - b64 0.2" by (rule b64_minus)
  then show ?thesis
    using b64_100000 unfolding int_to_H0_f_def int_to_H0_b64_def assms(1,2) b64_10 assms(3)
    by simp
qed



section \<open>Lemmas on the store\<close>

lemma kept_refl: "heap_wf s \<Longrightarrow> kept s s"
  by (simp add: kept_def)

lemma kept_wf: "kept s s' \<Longrightarrow> heap_wf s'"
  by (simp add: kept_def)

lemma kept_trans:
  assumes "kept s s'" "kept s' s''"
  shows "kept s s''"
  unfolding kept_def
proof (intro conjI allI impI)
  show "nxt s \<le> nxt s''" using assms by (simp add: kept_def)
  show "heap_wf s''" using assms by (simp add: kept_def)
  fix a ob
  assume h: "heap s a = Some ob"
  from assms(1) h consider "heap s' a = Some ob"
    | ob' where "array_obj ob" "heap s' a = Some ob'" "array_obj ob'"
    unfolding kept_def by blast
  then show "heap s'' a = Some ob
          \<or> (array_obj ob \<and> (\<exists>ob'. heap s'' a = Some ob' \<and> array_obj ob'))"
  proof cases
    case 1
    with assms(2) show ?thesis unfolding kept_def by blast
  next
    case 2
    with assms(2) show ?thesis unfolding kept_def by blast
  qed
qed

lemma kept_bind_var: "heap_wf s \<Longrightarrow> kept s (bind_var x v s)"
  by (simp add: kept_def bind_var_def heap_wf_def)

lemma kept_rng: "heap_wf s \<Longrightarrow> kept s (s\<lparr>rng := j\<rparr>)"
  by (simp add: kept_def heap_wf_def)

lemma kept_assign_new: "heap_wf s \<Longrightarrow> kept s (assign_new x ob s)"
  by (auto simp: kept_def assign_new_def alloc_def bind_var_def heap_wf_def)

lemma kept_assign_val: "heap_wf s \<Longrightarrow> kept s (snd (assign_val x r s))"
  by (cases r) (simp_all add: assign_val_def kept_refl kept_bind_var)

lemma kept_assign_obj: "heap_wf s \<Longrightarrow> kept s (snd (assign_obj x r s))"
  by (cases r) (simp_all add: assign_obj_def kept_refl kept_assign_new)

lemma kept_overwrite:
  assumes "heap_wf s" "heap s a = Some ob" "array_obj ob" "array_obj ob'"
  shows "kept s (s\<lparr>heap := (heap s)(a \<mapsto> ob')\<rparr>)"
  using assms by (auto simp: kept_def heap_wf_def)

lemma array_obj_simps:
  "array_obj (Arr1 xs)" "array_obj (Arr2 m)" "\<not> array_obj (Table tb)"
  "\<not> array_obj (View a c)" "\<not> array_obj (IArr2 idx)"
  by (simp_all add: array_obj_def)

lemma deref_heap: "deref s x = Inr (a, ob) \<Longrightarrow> heap s a = Some ob"
  by (auto simp: deref_def get_var_def bind_err_def split: option.splits val.splits)

lemma array2_heap: "array2 s x = Inr (a, m) \<Longrightarrow> heap s a = Some (Arr2 m)"
  by (auto simp: array2_def bind_err_def split: sum.splits obj.splits dest: deref_heap)

lemma array1_heap: "array1 s x = Inr (a, xs) \<Longrightarrow> heap s a = Some (Arr1 xs)"
  by (auto simp: array1_def bind_err_def split: sum.splits obj.splits dest: deref_heap)

lemma frames_run:
  assumes "\<forall>st \<in> set sts. frames st"
  shows "frames (run sts)"
  unfolding frames_def
proof (intro allI impI)
  fix w and s :: "'a state"
  assume "heap_wf s"
  then show "kept s (snd (run sts w s))"
    using assms
  proof (induction sts arbitrary: s)
    case Nil
    then show ?case by (simp add: kept_refl)
  next
    case (Cons st sts)
    obtain r s' where st: "st w s = (r, s')" by (cases "st w s")
    have "frames st" using Cons.prems(2) by simp
    then have "kept s (snd (st w s))" using Cons.prems(1) unfolding frames_def by blast
    then have k: "kept s s'" using st by simp
    show ?case
    proof (cases r)
      case None
      have "kept s' (snd (run sts w s'))"
        using Cons.IH[OF kept_wf[OF k]] Cons.prems(2) by simp
      then show ?thesis using st None k by (auto intro: kept_trans)
    next
      case (Some e)
      then show ?thesis using st k by simp
    qed
  qed
qed

lemma frames_assign_val: "(\<And>w s. st w s = assign_val x (r w s) s) \<Longrightarrow> frames st"
  by (simp add: frames_def kept_assign_val)

lemma frames_assign_obj: "(\<And>w s. st w s = assign_obj x (r w s) s) \<Longrightarrow> frames st"
  by (simp add: frames_def kept_assign_obj)

lemma frames_load_hubble: "frames stmt_load_hubble"
  by (rule frames_assign_obj) (rule stmt_load_hubble_def)

lemma frames_data_modern: "frames stmt_data_modern"
  by (rule frames_assign_obj) (rule stmt_data_modern_def)

lemma frames_hdelta_mean: "frames stmt_hdelta_mean"
  by (rule frames_assign_val) (rule stmt_hdelta_mean_def)

lemma frames_ndata_h0: "frames stmt_ndata_h0"
  by (rule frames_assign_val) (rule stmt_ndata_h0_def)

lemma frames_nbootstraps: "frames stmt_nbootstraps"
  by (rule frames_assign_val[where r = "\<lambda>w s. Inr (IntV 10000)"]) (rule stmt_nbootstraps_def)

lemma kept_rng_assign_new: "heap_wf s \<Longrightarrow> kept s (assign_new x ob (s\<lparr>rng := j\<rparr>))"
  by (rule kept_trans[OF kept_rng kept_assign_new]) (simp_all add: heap_wf_def)

lemma frames_hboot: "frames stmt_hboot"
  unfolding frames_def stmt_hboot_def
  by (auto split: sum.splits prod.splits intro: kept_refl kept_rng_assign_new)


lemma frames_read_row: "frames (stmt_read_row i)"
  unfolding frames_def stmt_read_row_def
  by (auto split: sum.splits prod.splits intro: kept_bind_var)

lemma frames_first_draws: "frames stmt_first_draws"
proof -
  have "frames (run (map stmt_read_row [0..<5]))"
    by (rule frames_run) (auto simp: frames_read_row)
  then show ?thesis by (simp add: frames_def stmt_first_draws_def)
qed

lemma frames_h0_mean: "frames stmt_h0_mean"
  by (rule frames_assign_obj) (rule stmt_h0_mean_def)

lemma frames_sboot: "frames stmt_sboot"
proof -
  have "kept s (snd (assign_obj x r (s\<lparr>rng := j\<rparr>)))" if "heap_wf s"
    for s :: "'a state" and x r j
  proof -
    have "heap_wf (s\<lparr>rng := j\<rparr>)" using that by (simp add: heap_wf_def)
    from kept_trans[OF kept_rng[OF that] kept_assign_obj[OF this]] show ?thesis .
  qed
  then show ?thesis
    unfolding frames_def stmt_sboot_def
    by (auto split: sum.splits prod.splits intro: kept_refl)
qed

lemma frames_h0_median_smoothed: "frames stmt_h0_median_smoothed"
  by (rule frames_assign_obj) (rule stmt_h0_median_smoothed_def)

lemma frames_path: "frames stmt_path"
  by (rule frames_assign_val[where r = "\<lambda>w s. Inr (StrV [])"]) (rule stmt_path_def)

lemma frames_load_sn: "frames stmt_load_sn"
  by (rule frames_assign_obj) (rule stmt_load_sn_def)

lemma frames_view: "frames (stmt_view x c)"
  by (rule frames_assign_obj) (rule stmt_view_def)

lemma frames_logv: "frames stmt_logv"
  by (rule frames_assign_obj) (rule stmt_logv_def)

lemma frames_weight: "frames stmt_weight"
  by (rule frames_assign_obj) (rule stmt_weight_def)

lemma frames_polyfit: "frames stmt_polyfit"
proof -
  have "kept s (assign_new y ob' (assign_new x ob s))" if "heap_wf s"
    for s :: "'a state" and x y ob ob'
    using kept_trans[OF kept_assign_new[OF that] kept_assign_new[OF kept_wf[OF kept_assign_new[OF that]]]] .
  then show ?thesis
    unfolding frames_def stmt_polyfit_def
    by (auto split: sum.splits prod.splits intro: kept_refl)
qed

lemma frames_coeff: "frames (stmt_coeff x i)"
  by (rule frames_assign_val) (rule stmt_coeff_def)

lemma frames_intercept_err_best: "frames stmt_intercept_err_best"
  by (rule frames_assign_val) (rule stmt_intercept_err_best_def)

lemma frames_def_int_to_H0: "frames stmt_def_int_to_H0"
  by (rule frames_assign_val[where r = "\<lambda>w s. Inr FunV"]) (rule stmt_def_int_to_H0_def)

lemma frames_h0_best: "frames stmt_h0_best"
  by (rule frames_assign_val) (rule stmt_h0_best_def)

lemma frames_h0_best_err: "frames stmt_h0_best_err"
  by (rule frames_assign_val) (rule stmt_h0_best_err_def)

lemma frames_nsims: "frames stmt_nsims"
  by (rule frames_assign_val[where r = "\<lambda>w s. Inr (IntV 10000)"]) (rule stmt_nsims_def)

lemma frames_ndata_mu: "frames stmt_ndata_mu"
  by (rule frames_assign_val) (rule stmt_ndata_mu_def)

lemma frames_rand_indices: "frames stmt_rand_indices"
  unfolding frames_def stmt_rand_indices_def
  by (auto split: sum.splits prod.splits intro: kept_refl kept_rng_assign_new)

lemma frames_zeros1: "frames (stmt_zeros1 x y d)"
  by (rule frames_assign_obj) (rule stmt_zeros1_def)

lemma frames_zeros2: "frames (stmt_zeros2 x)"
  by (rule frames_assign_obj) (rule stmt_zeros2_def)

lemma frames_set_row: "frames (stmt_set_row target col i)"
  unfolding frames_def
proof (intro allI impI)
  fix w and s :: "'a state"
  assume wf: "heap_wf s"
  show "kept s (snd (stmt_set_row target col i w s))"
  proof (cases "bind_err (series s col) (\<lambda>x. bind_err (array2 s target) (\<lambda>(a, m).
           bind_err (set_row m i (leave_one_out x i)) (\<lambda>m'. Inr (a, m'))))")
    case (Inl e)
    then show ?thesis by (simp add: stmt_set_row_def kept_refl[OF wf])
  next
    case (Inr r)
    obtain a m' where r: "r = (a, m')" by (cases r)
    from Inr r obtain m where "array2 s target = Inr (a, m)"
      by (auto simp: bind_err_def split: sum.splits)
    then have h: "heap s a = Some (Arr2 m)" by (rule array2_heap)
    have "kept s (s\<lparr>heap := (heap s)(a \<mapsto> Arr2 m')\<rparr>)"
      by (rule kept_overwrite[OF wf h]) (simp_all add: array_obj_simps)
    then show ?thesis using Inr r by (simp add: stmt_set_row_def)
  qed
qed

lemma frames_bind_i: "frames (stmt_bind_i i)"
  by (rule frames_assign_val[where r = "\<lambda>w s. Inr (IntV (int i))"]) (rule stmt_bind_i_def)

lemma frames_for_range:
  assumes "\<And>i. \<forall>st \<in> set (body i). frames st"
  shows "frames (for_range body)"
  unfolding frames_def
proof (intro allI impI)
  fix w and s :: "'a state"
  assume wf: "heap_wf s"
  have "frames (run (concat (map (\<lambda>i. stmt_bind_i i # body i) [0..<n])))" for n
    by (rule frames_run) (use assms in \<open>auto simp: frames_bind_i\<close>)
  then show "kept s (snd (for_range body w s))"
    using wf by (auto simp: for_range_def frames_def kept_refl split: sum.splits)
qed

lemma frames_jack_loop: "frames stmt_jack_loop"
  unfolding stmt_jack_loop_def
  by (rule frames_for_range) (simp add: jack_body_def frames_set_row)

lemma frames_set_h0_jack: "frames (stmt_set_h0_jack i)"
  unfolding frames_def
proof (intro allI impI)
  fix w and s :: "'a state"
  assume wf: "heap_wf s"
  show "kept s (snd (stmt_set_h0_jack i w s))"
  proof (cases "bind_err (get_fun s ''int_to_H0'') (\<lambda>_.
           bind_err (get_float s ''intercept'') (\<lambda>b.
           bind_err (array1 s ''h0_jack'') (\<lambda>(a, xs).
             if i < length xs then Inr (a, xs[i := int_to_H0_f (kern w) b])
             else Inl IndexError)))")
    case (Inl e)
    then show ?thesis by (simp add: stmt_set_h0_jack_def kept_refl[OF wf])
  next
    case (Inr r)
    obtain a xs' where r: "r = (a, xs')" by (cases r)
    from Inr r obtain xs where "array1 s ''h0_jack'' = Inr (a, xs)"
      by (auto simp: bind_err_def split: sum.splits if_splits)
    then have h: "heap s a = Some (Arr1 xs)" by (rule array1_heap)
    have "kept s (s\<lparr>heap := (heap s)(a \<mapsto> Arr1 xs')\<rparr>)"
      by (rule kept_overwrite[OF wf h]) (simp_all add: array_obj_simps)
    then show ?thesis using Inr r by (simp add: stmt_set_h0_jack_def)
  qed
qed

lemma frames_h0_jack_loop: "frames stmt_h0_jack_loop"
  unfolding stmt_h0_jack_loop_def
  by (rule frames_for_range) (simp add: frames_set_h0_jack)

lemma frames_h0_sigma_jack: "frames stmt_h0_sigma_jack"
  by (rule frames_assign_val) (rule stmt_h0_sigma_jack_def)

lemmas frames_stmts =
  frames_load_hubble frames_data_modern frames_hdelta_mean frames_ndata_h0 frames_nbootstraps
  frames_hboot frames_first_draws frames_h0_mean frames_sboot frames_h0_median_smoothed
  frames_path frames_load_sn frames_view frames_logv frames_weight frames_polyfit frames_coeff
  frames_intercept_err_best frames_def_int_to_H0 frames_h0_best frames_h0_best_err frames_nsims
  frames_ndata_mu frames_rand_indices frames_zeros1 frames_zeros2 frames_jack_loop
  frames_h0_jack_loop frames_h0_sigma_jack

lemma frames_notebook: "st \<in> set (concat notebook) \<Longrightarrow> frames st"
  unfolding notebook_def cell_load_def cell_cut_def cell_hist_def cell_boot_def cell_draws_def
    cell_mean_def cell_smooth_def cell_sn_def cell_fit_def cell_jack_def cell_jack_fill_def
    stmt_cz_def stmt_mu_def stmt_sigma_mu_def stmt_slope_best_def stmt_intercept_best_def
  by (auto simp: frames_stmts)

lemma cell_of_notebook: "c \<in> set notebook \<Longrightarrow> set c \<subseteq> set (concat notebook)"
  by auto

lemma kept_session:
  assumes "heap_wf s" "\<forall>c \<in> set cells. set c \<subseteq> set (concat notebook)"
  shows "kept s (session cells w s)"
  using assms
proof (induction cells arbitrary: s)
  case Nil
  then show ?case by (simp add: kept_refl)
next
  case (Cons c cells)
  have c: "set c \<subseteq> set (concat notebook)" using Cons.prems(2) by simp
  have "\<forall>st \<in> set c. frames st"
  proof
    fix st
    assume "st \<in> set c"
    then have "st \<in> set (concat notebook)" using c by (rule subsetD[rotated])
    then show "frames st" by (rule frames_notebook)
  qed
  then have "frames (run c)" by (rule frames_run)
  then have k: "kept s (snd (run c w s))"
    using Cons.prems(1) by (simp add: frames_def)
  have "kept (snd (run c w s)) (session cells w (snd (run c w s)))"
    using Cons.prems(2) by (intro Cons.IH kept_wf[OF k]) simp
  with k show ?case by (auto intro: kept_trans)
qed

lemma kept_table:
  assumes "kept s s'" "heap s a = Some ob" "\<not> array_obj ob"
  shows "heap s' a = Some ob"
  using assms unfolding kept_def by blast


lemma assign_new_facts:
  assumes "heap_wf s"
  shows "env (assign_new x ob s) = (env s)(x \<mapsto> Ref (nxt s))"
    and "heap (assign_new x ob s) = (heap s)(nxt s \<mapsto> ob)"
    and "nxt (assign_new x ob s) = nxt s + 1"
    and "rng (assign_new x ob s) = rng s"
    and "heap s (nxt s) = None"
    and "heap_wf (assign_new x ob s)"
  using assms by (simp_all add: assign_new_def alloc_def bind_var_def heap_wf_def)

lemma assign_obj_new:
  assumes "heap_wf s" "assign_obj x r s = (None, s')"
  shows "\<exists>ob. r = Inr ob \<and> env s' x = Some (Ref (nxt s)) \<and> heap s (nxt s) = None
           \<and> heap s' (nxt s) = Some ob
           \<and> (\<forall>a ob'. heap s a = Some ob' \<longrightarrow> heap s' a = Some ob')"
proof (cases r)
  case (Inl e)
  then show ?thesis using assms(2) by (simp add: assign_obj_def)
next
  case (Inr ob)
  then have s': "s' = assign_new x ob s" using assms(2) by (simp add: assign_obj_def)
  show ?thesis
    using Inr assign_new_facts[OF assms(1)] unfolding s' by auto
qed

lemma length_randn: "length (randn v (N, n)) = N"
  by (simp add: randn_def)

lemma rect_randn: "rect n (randn v (N, n))"
  by (auto simp: randn_def rect_def)

lemma nth_randn: "i < N \<Longrightarrow> j < n \<Longrightarrow> randn v (N, n) ! i ! j = v (i * n + j)"
  by (simp add: randn_def)

lemma shape2_rect: "m \<noteq> [] \<Longrightarrow> rect n m \<Longrightarrow> shape2 m = (length m, n)"
  by (cases m) (simp_all add: shape2_def rect_def)

lemma np_add2_same_shape:
  assumes "length A = N" "length B = N" "rect n A" "rect n B"
  shows "np_add2 f A B = Inr (map (\<lambda>i. map (\<lambda>j. f (A ! i ! j) (B ! i ! j)) [0..<n]) [0..<N])"
proof (cases "N = 0")
  case True
  then show ?thesis using assms by (simp add: np_add2_def shape2_def bdim_def)
next
  case False
  then have ne: "A \<noteq> []" "B \<noteq> []" using assms by auto
  have sa: "shape2 A = (N, n)" and sb: "shape2 B = (N, n)"
    using shape2_rect[OF ne(1) assms(3)] shape2_rect[OF ne(2) assms(4)] assms by simp_all
  have g: "get2 M i j = M ! i ! j" if "shape2 M = (N, n)" "i < N" "j < n" for M :: "'a list list" and i j
    using that by (auto simp: get2_def)
  have "map (\<lambda>i. map (\<lambda>j. f (get2 A i j) (get2 B i j)) [0..<n]) [0..<N]
      = map (\<lambda>i. map (\<lambda>j. f (A ! i ! j) (B ! i ! j)) [0..<n]) [0..<N]"
    by (intro map_cong refl) (simp add: g[OF sa] g[OF sb])
  then show ?thesis by (simp add: np_add2_def sa sb bdim_def)
qed

lemma table_not_array: "table_obj ob \<Longrightarrow> \<not> array_obj ob"
  by (cases ob) (simp_all add: table_obj_def array_obj_def)

lemma frames_wf: "frames st \<Longrightarrow> heap_wf s \<Longrightarrow> st w s = (r, s') \<Longrightarrow> heap_wf s'"
  unfolding frames_def by (metis kept_wf snd_conv)

lemma load_hubble_new:
  assumes "heap_wf s" "stmt_load_hubble w s = (None, s')"
  shows "\<exists>tb. read_fwf (files w) ''hubble_trim.dat'' = Inr tb
           \<and> env s' ''data'' = Some (Ref (nxt s)) \<and> heap s (nxt s) = None
           \<and> heap s' (nxt s) = Some (Table tb) \<and> heap_wf s'"
proof -
  from assign_obj_new[OF assms(1) assms(2)[unfolded stmt_load_hubble_def]]
  obtain ob where ob: "bind_err (read_fwf (files w) ''hubble_trim.dat'')
        (\<lambda>tb. Inr (Table tb)) = Inr ob"
    and rest: "env s' ''data'' = Some (Ref (nxt s))" "heap s (nxt s) = None"
      "heap s' (nxt s) = Some ob"
    by blast
  from ob obtain tb where "read_fwf (files w) ''hubble_trim.dat'' = Inr tb"
    "ob = Table tb"
    by (auto simp: bind_err_def split: sum.splits)
  moreover have "heap_wf s'"
    by (rule frames_wf[OF frames_load_hubble assms])
  ultimately show ?thesis using rest by blast
qed

lemma load_sn_new:
  assumes "heap_wf s" "stmt_load_sn w s = (None, s')"
  shows "\<exists>p tb. get_str s ''path'' = Inr p
           \<and> read_fwf (files w) (p @ ''sndata.txt'') = Inr tb
           \<and> env s' ''data'' = Some (Ref (nxt s)) \<and> heap s (nxt s) = None
           \<and> heap s' (nxt s) = Some (Table tb) \<and> heap_wf s'"
proof -
  from assign_obj_new[OF assms(1) assms(2)[unfolded stmt_load_sn_def]]
  obtain ob where ob: "bind_err (get_str s ''path'') (\<lambda>p.
        bind_err (read_fwf (files w) (p @ ''sndata.txt'')) (\<lambda>tb. Inr (Table tb))) = Inr ob"
    and rest: "env s' ''data'' = Some (Ref (nxt s))" "heap s (nxt s) = None"
      "heap s' (nxt s) = Some ob"
    by blast
  from ob obtain p tb where "get_str s ''path'' = Inr p"
    "read_fwf (files w) (p @ ''sndata.txt'') = Inr tb" "ob = Table tb"
    by (auto simp: bind_err_def split: sum.splits)
  moreover have "heap_wf s'"
    by (rule frames_wf[OF frames_load_sn assms])
  ultimately show ?thesis using rest by blast
qed

lemma data_modern_new:
  assumes "heap_wf s" "stmt_data_modern w s = (None, s')"
  shows "\<exists>a tb tb'. deref s ''data'' = Inr (a, Table tb)
           \<and> query_table (kern w) tb = Inr tb'
           \<and> env s' ''data_modern'' = Some (Ref (nxt s)) \<and> heap s (nxt s) = None
           \<and> heap s' (nxt s) = Some (Table tb')
           \<and> (\<forall>b ob. heap s b = Some ob \<longrightarrow> heap s' b = Some ob)"
proof -
  from assign_obj_new[OF assms(1) assms(2)[unfolded stmt_data_modern_def]]
  obtain ob where ob: "bind_err (deref s ''data'') (\<lambda>(a, ob).
          case ob of
            Table tb \<Rightarrow> bind_err (query_table (kern w) tb) (\<lambda>tb'. Inr (Table tb'))
          | _ \<Rightarrow> Inl TypeError) = Inr ob"
    and rest: "env s' ''data_modern'' = Some (Ref (nxt s))" "heap s (nxt s) = None"
      "heap s' (nxt s) = Some ob" "\<forall>b ob'. heap s b = Some ob' \<longrightarrow> heap s' b = Some ob'"
    by blast
  from ob obtain a tb tb' where "deref s ''data'' = Inr (a, Table tb)"
    "query_table (kern w) tb = Inr tb'" "ob = Table tb'"
    by (auto simp: bind_err_def split: sum.splits obj.splits)
  then show ?thesis using rest by blast
qed

lemma query_table_hubble: "query_table k (Hubble t) = Inr (Hubble (query_date k t))"
  by (simp add: query_table_def)

lemma hboot_new:
  assumes "heap_wf s" "stmt_hboot w s = (None, s')"
  shows "\<exists>m. env s' ''hboot'' = Some (Ref (nxt s)) \<and> heap s (nxt s) = None
           \<and> heap s' (nxt s) = Some (Arr2 m)
           \<and> (\<forall>b ob. heap s b = Some ob \<longrightarrow> heap s' b = Some ob)"
proof -
  from assms(2) obtain N n m where
    s': "s' = assign_new ''hboot'' (Arr2 m) (s\<lparr>rng := rng s + N * n\<rparr>)"
    by (auto simp: stmt_hboot_def split: sum.splits prod.splits)
  have wf: "heap_wf (s\<lparr>rng := rng s + N * n\<rparr>)" using assms(1) by (simp add: heap_wf_def)
  show ?thesis
    using assign_new_facts[OF wf] unfolding s' by auto
qed

lemma sboot_new:
  assumes "heap_wf s" "stmt_sboot w s = (None, s')"
  shows "\<exists>m. env s' ''sboot'' = Some (Ref (nxt s)) \<and> heap s (nxt s) = None
           \<and> heap s' (nxt s) = Some (Arr2 m)
           \<and> (\<forall>b ob. heap s b = Some ob \<longrightarrow> heap s' b = Some ob)"
proof -
  from assms(2) obtain r j where
    a: "assign_obj ''sboot'' (bind_err r (\<lambda>m. Inr (Arr2 m))) (s\<lparr>rng := j\<rparr>) = (None, s')"
    by (auto simp: stmt_sboot_def split: sum.splits prod.splits)
  have wf: "heap_wf (s\<lparr>rng := j\<rparr>)" using assms(1) by (simp add: heap_wf_def)
  from assign_obj_new[OF wf a] obtain ob where ob: "bind_err r (\<lambda>m. Inr (Arr2 m)) = Inr ob"
    and rest: "env s' ''sboot'' = Some (Ref (nxt s))" "heap s (nxt s) = None"
      "heap s' (nxt s) = Some ob" "\<forall>b ob'. heap s b = Some ob' \<longrightarrow> heap s' b = Some ob'"
    by auto
  from ob obtain m where "ob = Arr2 m" by (auto simp: bind_err_def split: sum.splits)
  then show ?thesis using rest by blast
qed


lemma get_shape_dims:
  "get_shape s x y = Inr (N, n) \<Longrightarrow>
     \<exists>r c. get_int s x = Inr r \<and> get_int s y = Inr c \<and> 0 \<le> r \<and> 0 \<le> c \<and> N = nat r \<and> n = nat c"
  by (auto simp: get_shape_def bind_err_def to_dim_def split: sum.splits if_splits)

lemma array2_after_assign_new:
  assumes "heap_wf s" "array2 s x = Inr (a, m)" "x \<noteq> y"
  shows "array2 (assign_new y ob s) x = Inr (a, m)"
proof -
  have h: "heap s a = Some (Arr2 m)" using assms(2) by (rule array2_heap)
  have fresh: "heap s (nxt s) = None" using assms(1) by (simp add: heap_wf_def)
  have ne: "a \<noteq> nxt s" using h fresh by auto
  have e: "env s x = Some (Ref a)"
    using assms(2)
    by (auto simp: array2_def deref_def get_var_def bind_err_def
        split: option.splits val.splits sum.splits obj.splits)
  show ?thesis
    using assms(3) ne h e
    by (simp add: array2_def deref_def get_var_def bind_err_def assign_new_def alloc_def
        bind_var_def)
qed

lemma array2_rng: "array2 (s\<lparr>rng := j\<rparr>) x = array2 s x"
  by (simp add: array2_def deref_def get_var_def cong: val.case_cong)

lemma array2_assign_new_same:
  "heap_wf s \<Longrightarrow> array2 (assign_new x (Arr2 m) s) x = Inr (nxt s, m)"
  by (simp add: array2_def deref_def get_var_def bind_err_def assign_new_def alloc_def
      bind_var_def)

section \<open>The store model and the functions of the cells\<close>

text \<open>
  The statements of the resampling cell and of the jackknife cell, run on the store,
  produce the arrays that \<open>hboot\<close> and \<open>jackknife_subsets\<close> return for the columns
  they read.
\<close>

lemma deref_bind_var: "x \<noteq> y \<Longrightarrow> deref (bind_var y v s) x = deref s x"
  by (simp add: deref_def get_var_def bind_var_def cong: val.case_cong)

lemma column_bind_var: "x \<noteq> y \<Longrightarrow> column (bind_var y v s) x c = column s x c"
  by (simp add: column_def deref_bind_var)

lemma get_int_bind_var_same: "get_int (bind_var x (IntV i) s) x = Inr i"
  by (simp add: get_int_def get_var_def bind_var_def bind_err_def)

lemma get_int_bind_var_other: "x \<noteq> y \<Longrightarrow> get_int (bind_var y v s) x = get_int s x"
  by (simp add: get_int_def get_var_def bind_var_def)

lemma get_int_assign_new: "x \<noteq> y \<Longrightarrow> get_int (assign_new y ob s) x = get_int s x"
  by (simp add: get_int_def get_var_def assign_new_def alloc_def bind_var_def)

lemma get_int_rng: "get_int (s\<lparr>rng := j\<rparr>) x = get_int s x"
  by (simp add: get_int_def get_var_def)

lemma heap_wf_bind_var: "heap_wf s \<Longrightarrow> heap_wf (bind_var x v s)"
  by (simp add: heap_wf_def bind_var_def)

lemma cell_boot_result:
  assumes "heap_wf s" and "column s ''data_modern'' ''h0'' = Inr xs"
  shows "\<exists>m s'. run cell_boot w s = (None, s')
           \<and> hboot (\<lambda>j. entropy w (rng s + j)) xs = Inr m
           \<and> array2 s' ''hboot'' = Inr (nxt s, m)
           \<and> get_shape s' ''nbootstraps'' ''ndata'' = Inr (10000, length xs)
           \<and> length m = 10000 \<and> rect (length xs) m \<and> heap_wf s'"
proof -
  let ?sa = "bind_var ''ndata'' (IntV (int (length xs))) s"
  let ?sb = "bind_var ''nbootstraps'' (IntV 10000) ?sa"
  let ?sc = "?sb\<lparr>rng := rng ?sb + 10000 * length xs\<rparr>"
  obtain m where m: "hboot (\<lambda>j. entropy w (rng s + j)) xs = Inr m"
    using hboot_returns by blast
  then have c: "choice (\<lambda>j. entropy w (rng s + j)) xs (10000, length xs) = Inr m"
    by (simp add: hboot_def)
  let ?sd = "assign_new ''hboot'' (Arr2 m) ?sc"
  have a: "stmt_ndata_h0 w s = (None, ?sa)"
    by (simp add: stmt_ndata_h0_def assms(2) bind_err_def assign_val_def)
  have b: "stmt_nbootstraps w ?sa = (None, ?sb)"
    by (simp add: stmt_nbootstraps_def assign_val_def)
  have col: "column ?sb ''data_modern'' ''h0'' = Inr xs"
    using assms(2) by (simp add: column_bind_var)
  have gi: "get_int ?sb ''nbootstraps'' = Inr 10000" "get_int ?sb ''ndata'' = Inr (int (length xs))"
    by (simp_all add: get_int_bind_var_same get_int_bind_var_other)
  have sh: "get_shape ?sb ''nbootstraps'' ''ndata'' = Inr (10000, length xs)"
    by (simp add: get_shape_def gi bind_err_def to_dim_def)
  have rg: "rng ?sb = rng s" by (simp add: bind_var_def)
  have d: "stmt_hboot w ?sb = (None, ?sd)"
    by (simp add: stmt_hboot_def col sh bind_err_def rg c)
  have rn: "run cell_boot w s = (None, ?sd)"
    by (simp add: cell_boot_def a b d)
  have wfc: "heap_wf ?sc"
    using assms(1) by (simp add: heap_wf_def bind_var_def)
  have nx: "nxt ?sc = nxt s" by (simp add: bind_var_def)
  have arr: "array2 ?sd ''hboot'' = Inr (nxt s, m)"
    using array2_assign_new_same[OF wfc, of "''hboot''" m] nx by simp
  have gd: "get_int ?sd ''nbootstraps'' = Inr 10000" "get_int ?sd ''ndata'' = Inr (int (length xs))"
    using gi by (simp_all add: get_int_assign_new get_int_rng)
  have shd: "get_shape ?sd ''nbootstraps'' ''ndata'' = Inr (10000, length xs)"
    by (simp add: get_shape_def gd bind_err_def to_dim_def)
  have len: "length m = 10000" using choice_shape(1)[OF c] .
  have rc: "rect (length xs) m" using choice_shape(2)[OF c] by (simp add: rect_def)
  have wfd: "heap_wf ?sd" using assign_new_facts(6)[OF wfc] .
  show ?thesis
    by (rule exI[of _ m], rule exI[of _ ?sd]) (intro conjI rn m arr shd len rc wfd)
qed

lemma series_cases:
  assumes "series s x = Inr v"
  obtains (own) b where "env s x = Some (Ref b)" "heap s b = Some (Arr1 v)"
  | (view) b t c tb where "env s x = Some (Ref b)" "heap s b = Some (View t c)"
      "heap s t = Some tb" "table_col tb c = Inr v"
  using assms
  by (auto simp: series_def deref_def get_var_def bind_err_def
      split: option.splits val.splits sum.splits obj.splits)

lemma series_own: "env s x = Some (Ref b) \<Longrightarrow> heap s b = Some (Arr1 v) \<Longrightarrow> series s x = Inr v"
  by (simp add: series_def deref_def get_var_def bind_err_def)

lemma series_view:
  "env s x = Some (Ref b) \<Longrightarrow> heap s b = Some (View t c) \<Longrightarrow> heap s t = Some tb
     \<Longrightarrow> table_col tb c = Inr v \<Longrightarrow> series s x = Inr v"
  by (simp add: series_def deref_def get_var_def bind_err_def)

lemma table_col_table: "table_col tb c = Inr v \<Longrightarrow> table_obj tb"
  by (cases tb) (simp_all add: table_col_def table_obj_def)

lemma table_col_simps:
  "table_col (Table (Hubble t)) ''h0'' = Inr (map h0 t)"
  "table_col (Table (SN u)) ''cz'' = Inr (map row_cz u)"
  "table_col (Table (SN u)) ''mu'' = Inr (map row_mu u)"
  "table_col (Table (SN u)) ''sigma_mu'' = Inr (map row_sigma_mu u)"
  "table_col (Table (Frame cols)) c =
     (case map_of cols c of None \<Rightarrow> Inl KeyError | Some xs \<Rightarrow> Inr xs)"
  by (simp_all add: table_col_def)

text \<open>A successful read of a series depends on the name and on objects that are no 2-D arrays.\<close>

lemma series_stable:
  assumes "series s x = Inr v" "env s' x = env s x"
    and "\<And>a ob. heap s a = Some ob \<Longrightarrow> (\<And>m. ob \<noteq> Arr2 m) \<Longrightarrow> heap s' a = Some ob"
  shows "series s' x = Inr v"
  using assms(1)
proof (cases rule: series_cases)
  case (own b)
  have "heap s' b = Some (Arr1 v)" using assms(3)[OF own(2)] by simp
  then show ?thesis using own(1) assms(2) by (intro series_own) simp_all
next
  case (view b t c tb)
  have 1: "heap s' b = Some (View t c)" using assms(3)[OF view(2)] by simp
  have "table_obj tb" using view(4) by (rule table_col_table)
  then have "\<And>m. tb \<noteq> Arr2 m" by (auto simp: table_obj_def)
  then have 2: "heap s' t = Some tb" using assms(3)[OF view(3)] by simp
  show ?thesis using view(1,4) assms(2) 1 2 by (intro series_view[where b = b]) simp_all
qed

lemma heap_wf_fresh: "heap_wf s \<Longrightarrow> heap s a = Some ob \<Longrightarrow> a < nxt s"
  unfolding heap_wf_def by (metis not_le option.distinct(1))

lemma series_bind_var: "series s x = Inr v \<Longrightarrow> x \<noteq> y \<Longrightarrow> series (bind_var y u s) x = Inr v"
  by (erule series_stable) (simp_all add: bind_var_def)

lemma series_assign_new:
  assumes "heap_wf s" "series s x = Inr v" "x \<noteq> y"
  shows "series (assign_new y ob s) x = Inr v"
proof (rule series_stable[OF assms(2)])
  show "env (assign_new y ob s) x = env s x"
    using assms(3) by (simp add: assign_new_facts(1)[OF assms(1)])
  fix a ob'
  assume "heap s a = Some ob'"
  then show "heap (assign_new y ob s) a = Some ob'"
    using heap_wf_fresh[OF assms(1)] by (auto simp: assign_new_facts(2)[OF assms(1)])
qed

lemma series_overwrite:
  assumes "series s x = Inr v" "heap s a = Some (Arr2 m)"
  shows "series (s\<lparr>heap := (heap s)(a \<mapsto> Arr2 m')\<rparr>) x = Inr v"
proof (rule series_stable[OF assms(1)])
  show "env (s\<lparr>heap := (heap s)(a \<mapsto> Arr2 m')\<rparr>) x = env s x" by simp
  fix b ob
  assume h: "heap s b = Some ob" and n: "\<And>k. ob \<noteq> Arr2 k"
  have "b \<noteq> a"
  proof
    assume "b = a"
    then have "ob = Arr2 m" using h assms(2) by simp
    then show False using n by blast
  qed
  then show "heap (s\<lparr>heap := (heap s)(a \<mapsto> Arr2 m')\<rparr>) b = Some ob" using h by simp
qed

lemma run_append:
  "run (xs @ ys) w s =
     (case run xs w s of (Some e, s') \<Rightarrow> (Some e, s') | (None, s') \<Rightarrow> run ys w s')"
  by (induction xs arbitrary: s) (auto split: prod.splits option.splits)

lemma set_row_step:
  assumes "series t col = Inr x" "env t target = Some (Ref a)" "heap t a = Some (Arr2 m)"
    and "set_row m i (leave_one_out x i) = Inr m'"
  shows "stmt_set_row target col i w t = (None, t\<lparr>heap := (heap t)(a \<mapsto> Arr2 m')\<rparr>)"
proof -
  have "array2 t target = Inr (a, m)"
    using assms(2,3) by (simp add: array2_def deref_def get_var_def bind_err_def)
  then show ?thesis
    using assms(1,4) by (simp add: stmt_set_row_def bind_err_def)
qed

lemma jack_inv_bind_i:
  assumes "jack_inv t addrs cols arrs"
  shows "jack_inv (bind_var ''i'' v t) addrs cols arrs"
proof -
  obtain a1 a2 a3 lv mv wv L M W where
    p: "addrs = (a1, a2, a3)" "cols = (lv, mv, wv)" "arrs = (L, M, W)"
    by (cases addrs, cases cols, cases arrs) auto
  show ?thesis
    using assms unfolding p jack_inv_def
    by (auto simp: series_bind_var) (simp_all add: bind_var_def)
qed

lemma jack_turn:
  assumes inv: "jack_inv t (a1, a2, a3) (lv, mv, wv) (L, M, W)"
    and dist: "a1 \<noteq> a2" "a1 \<noteq> a3" "a2 \<noteq> a3"
    and i: "i < n"
    and len: "length lv = n" "length mv = n" "length wv = n"
      "length L = n" "length M = n" "length W = n"
    and rc: "rect (n - 1) L" "rect (n - 1) M" "rect (n - 1) W"
  shows "\<exists>t'. run (stmt_bind_i i # jack_body i) w t = (None, t')
           \<and> jack_inv t' (a1, a2, a3) (lv, mv, wv)
                (L[i := leave_one_out lv i], M[i := leave_one_out mv i],
                 W[i := leave_one_out wv i])"
proof -
  let ?t0 = "bind_var ''i'' (IntV (int i)) t"
  let ?L = "L[i := leave_one_out lv i]" and ?M = "M[i := leave_one_out mv i]"
    and ?W = "W[i := leave_one_out wv i]"
  let ?t1 = "?t0\<lparr>heap := (heap ?t0)(a1 \<mapsto> Arr2 ?L)\<rparr>"
  let ?t2 = "?t1\<lparr>heap := (heap ?t1)(a2 \<mapsto> Arr2 ?M)\<rparr>"
  let ?t3 = "?t2\<lparr>heap := (heap ?t2)(a3 \<mapsto> Arr2 ?W)\<rparr>"
  have b: "stmt_bind_i i w t = (None, ?t0)"
    by (simp add: stmt_bind_i_def assign_val_def)
  have inv0: "jack_inv ?t0 (a1, a2, a3) (lv, mv, wv) (L, M, W)"
    using inv by (rule jack_inv_bind_i)
  then have e0: "env ?t0 ''logv_jack'' = Some (Ref a1)" "env ?t0 ''mu_jack'' = Some (Ref a2)"
    "env ?t0 ''weight_jack'' = Some (Ref a3)"
    and h0: "heap ?t0 a1 = Some (Arr2 L)" "heap ?t0 a2 = Some (Arr2 M)"
      "heap ?t0 a3 = Some (Arr2 W)"
    and s0: "series ?t0 ''logv'' = Inr lv" "series ?t0 ''mu'' = Inr mv"
      "series ?t0 ''weight'' = Inr wv"
    by (simp_all add: jack_inv_def)
  have fitL: "set_row L i (leave_one_out lv i) = Inr ?L"
    using i len rc by (intro set_row_fits[where c = "n - 1"]) (simp_all add: length_leave_one_out)
  have fitM: "set_row M i (leave_one_out mv i) = Inr ?M"
    using i len rc by (intro set_row_fits[where c = "n - 1"]) (simp_all add: length_leave_one_out)
  have fitW: "set_row W i (leave_one_out wv i) = Inr ?W"
    using i len rc by (intro set_row_fits[where c = "n - 1"]) (simp_all add: length_leave_one_out)
  have r1: "stmt_set_row ''logv_jack'' ''logv'' i w ?t0 = (None, ?t1)"
    by (rule set_row_step[OF s0(1) e0(1) h0(1) fitL])
  have s1: "series ?t1 ''logv'' = Inr lv" "series ?t1 ''mu'' = Inr mv"
    "series ?t1 ''weight'' = Inr wv"
    by (rule series_overwrite[OF s0(1) h0(1)], rule series_overwrite[OF s0(2) h0(1)],
        rule series_overwrite[OF s0(3) h0(1)])
  have e1: "env ?t1 ''mu_jack'' = Some (Ref a2)" using e0 by simp
  have h1: "heap ?t1 a2 = Some (Arr2 M)" using h0 dist by simp
  have r2: "stmt_set_row ''mu_jack'' ''mu'' i w ?t1 = (None, ?t2)"
    by (rule set_row_step[OF s1(2) e1 h1 fitM])
  have s2: "series ?t2 ''logv'' = Inr lv" "series ?t2 ''mu'' = Inr mv"
    "series ?t2 ''weight'' = Inr wv"
    by (rule series_overwrite[OF s1(1) h1], rule series_overwrite[OF s1(2) h1],
        rule series_overwrite[OF s1(3) h1])
  have e2: "env ?t2 ''weight_jack'' = Some (Ref a3)" using e0 by simp
  have h2: "heap ?t2 a3 = Some (Arr2 W)" using h0 dist by simp
  have r3: "stmt_set_row ''weight_jack'' ''weight'' i w ?t2 = (None, ?t3)"
    by (rule set_row_step[OF s2(3) e2 h2 fitW])
  have s3: "series ?t3 ''logv'' = Inr lv" "series ?t3 ''mu'' = Inr mv"
    "series ?t3 ''weight'' = Inr wv"
    by (rule series_overwrite[OF s2(1) h2], rule series_overwrite[OF s2(2) h2],
        rule series_overwrite[OF s2(3) h2])
  have run: "run (stmt_bind_i i # jack_body i) w t = (None, ?t3)"
    by (simp only: jack_body_def run.simps b r1 r2 r3 prod.case option.case)
  have "jack_inv ?t3 (a1, a2, a3) (lv, mv, wv) (?L, ?M, ?W)"
    unfolding jack_inv_def using e0 s3 dist by simp
  with run show ?thesis by blast
qed

lemma jack_turns:
  assumes "jack_inv t (a1, a2, a3) (lv, mv, wv) (L, M, W)"
    and "a1 \<noteq> a2" "a1 \<noteq> a3" "a2 \<noteq> a3"
    and "\<forall>i \<in> set js. i < n"
    and "length lv = n" "length mv = n" "length wv = n"
    and "length L = n" "length M = n" "length W = n"
    and "rect (n - 1) L" "rect (n - 1) M" "rect (n - 1) W"
  shows "\<exists>t'. run (concat (map (\<lambda>i. stmt_bind_i i # jack_body i) js)) w t = (None, t')
           \<and> jack_inv t' (a1, a2, a3) (lv, mv, wv)
                (fold (\<lambda>i m. m[i := leave_one_out lv i]) js L,
                 fold (\<lambda>i m. m[i := leave_one_out mv i]) js M,
                 fold (\<lambda>i m. m[i := leave_one_out wv i]) js W)"
  using assms
proof (induction js arbitrary: t L M W)
  case Nil
  then show ?case by simp
next
  case (Cons i js)
  let ?L = "L[i := leave_one_out lv i]" and ?M = "M[i := leave_one_out mv i]"
    and ?W = "W[i := leave_one_out wv i]"
  have i: "i < n" using Cons.prems(5) by simp
  from jack_turn[OF Cons.prems(1-4) i Cons.prems(6-14), of w]
  obtain t1 where t1: "run (stmt_bind_i i # jack_body i) w t = (None, t1)"
    "jack_inv t1 (a1, a2, a3) (lv, mv, wv) (?L, ?M, ?W)"
    by blast
  have "\<exists>t'. run (concat (map (\<lambda>i. stmt_bind_i i # jack_body i) js)) w t1 = (None, t')
           \<and> jack_inv t' (a1, a2, a3) (lv, mv, wv)
                (fold (\<lambda>i m. m[i := leave_one_out lv i]) js ?L,
                 fold (\<lambda>i m. m[i := leave_one_out mv i]) js ?M,
                 fold (\<lambda>i m. m[i := leave_one_out wv i]) js ?W)"
    using Cons.prems
    by (intro Cons.IH[OF t1(2)]) (simp_all add: rect_update length_leave_one_out)
  then obtain t' where t': "run (concat (map (\<lambda>i. stmt_bind_i i # jack_body i) js)) w t1 = (None, t')"
    "jack_inv t' (a1, a2, a3) (lv, mv, wv)
                (fold (\<lambda>i m. m[i := leave_one_out lv i]) js ?L,
                 fold (\<lambda>i m. m[i := leave_one_out mv i]) js ?M,
                 fold (\<lambda>i m. m[i := leave_one_out wv i]) js ?W)"
    by blast
  have "run (concat (map (\<lambda>i. stmt_bind_i i # jack_body i) (i # js))) w t = (None, t')"
    using t1(1) t'(1)
    by (simp only: list.map concat.simps run_append) simp
  then show ?case using t'(2) by auto
qed

lemma array2_of_inv:
  assumes "jack_inv t (a1, a2, a3) cols (L, M, W)"
  shows "array2 t ''logv_jack'' = Inr (a1, L)" "array2 t ''mu_jack'' = Inr (a2, M)"
    "array2 t ''weight_jack'' = Inr (a3, W)"
  using assms
  by (cases cols; simp add: jack_inv_def array2_def deref_def get_var_def bind_err_def)+

lemma cell_jack_fill_result:
  assumes "heap_wf s" and "series s ''logv'' = Inr lv" and "series s ''mu'' = Inr mv"
    and "series s ''weight'' = Inr wv"
    and "length lv = length mv" and "length wv = length mv" and "mv \<noteq> []"
  shows "\<exists>t L M W. run cell_jack_fill w s = (None, t)
           \<and> jackknife_subsets (k_lit (kern w) 0) lv mv wv = Inr (L, M, W)
           \<and> array2 t ''logv_jack'' = Inr (nxt s, L)
           \<and> array2 t ''mu_jack'' = Inr (nxt s + 1, M)
           \<and> array2 t ''weight_jack'' = Inr (nxt s + 2, W)"
proof -
  let ?n = "length mv" and ?z = "k_lit (kern w) 0"
  let ?Z = "replicate ?n (replicate (?n - 1) ?z)"
  let ?s1 = "bind_var ''ndata'' (IntV (int ?n)) s"
  let ?s2 = "assign_new ''logv_jack'' (Arr2 ?Z) ?s1"
  let ?s3 = "assign_new ''mu_jack'' (Arr2 ?Z) ?s2"
  let ?s4 = "assign_new ''weight_jack'' (Arr2 ?Z) ?s3"
  let ?s5 = "assign_new ''h0_jack'' (Arr1 (replicate (?n - 1) ?z)) ?s4"
  have n: "0 < ?n" using assms(7) by simp
  have zeros: "np_zeros2 ?z (int ?n) (int ?n - 1) = Inr ?Z"
    using n by (simp add: np_zeros2_def nat_diff_distrib')
  have dim: "to_dim (int ?n + - 1) = Inr (?n - 1)"
    using n by (simp add: to_dim_def nat_diff_distrib')
  have wf1: "heap_wf ?s1" using assms(1) by (rule heap_wf_bind_var)
  have wf2: "heap_wf ?s2" using assign_new_facts(6)[OF wf1] .
  have wf3: "heap_wf ?s3" using assign_new_facts(6)[OF wf2] .
  have wf4: "heap_wf ?s4" using assign_new_facts(6)[OF wf3] .
  have g1: "get_int ?s1 ''ndata'' = Inr (int ?n)" by (rule get_int_bind_var_same)
  have g2: "get_int ?s2 ''ndata'' = Inr (int ?n)" using g1 by (simp add: get_int_assign_new)
  have g3: "get_int ?s3 ''ndata'' = Inr (int ?n)" using g2 by (simp add: get_int_assign_new)
  have g4: "get_int ?s4 ''ndata'' = Inr (int ?n)" using g3 by (simp add: get_int_assign_new)
  have g5: "get_int ?s5 ''ndata'' = Inr (int ?n)" using g4 by (simp add: get_int_assign_new)
  have r1: "stmt_ndata_mu w s = (None, ?s1)"
    by (simp add: stmt_ndata_mu_def assms(3) bind_err_def assign_val_def)
  have r2: "stmt_zeros2 ''logv_jack'' w ?s1 = (None, ?s2)"
    by (simp only: stmt_zeros2_def g1 zeros bind_err_def assign_obj_def sum.case)
  have r3: "stmt_zeros2 ''mu_jack'' w ?s2 = (None, ?s3)"
    by (simp only: stmt_zeros2_def g2 zeros bind_err_def assign_obj_def sum.case)
  have r4: "stmt_zeros2 ''weight_jack'' w ?s3 = (None, ?s4)"
    by (simp only: stmt_zeros2_def g3 zeros bind_err_def assign_obj_def sum.case)
  have r5: "stmt_zeros1 ''h0_jack'' ''ndata'' (- 1) w ?s4 = (None, ?s5)"
    by (simp only: stmt_zeros1_def g4 dim bind_err_def assign_obj_def sum.case)
  have ser: "series ?s5 x = Inr v" if "series s x = Inr v"
    "x \<noteq> ''ndata''" "x \<noteq> ''logv_jack''" "x \<noteq> ''mu_jack''" "x \<noteq> ''weight_jack''"
    "x \<noteq> ''h0_jack''" for x v
    using that
    by (intro series_assign_new[OF wf4] series_assign_new[OF wf3] series_assign_new[OF wf2]
        series_assign_new[OF wf1] series_bind_var) simp_all
  have nx: "nxt ?s1 = nxt s" "nxt ?s2 = nxt s + 1" "nxt ?s3 = nxt s + 2" "nxt ?s4 = nxt s + 3"
    by (simp_all add: assign_new_def alloc_def bind_var_def)
  have inv: "jack_inv ?s5 (nxt s, nxt s + 1, nxt s + 2) (lv, mv, wv) (?Z, ?Z, ?Z)"
    unfolding jack_inv_def prod.case
  proof (intro conjI)
    show "series ?s5 ''logv'' = Inr lv" by (rule ser[OF assms(2)]) simp_all
    show "series ?s5 ''mu'' = Inr mv" by (rule ser[OF assms(3)]) simp_all
    show "series ?s5 ''weight'' = Inr wv" by (rule ser[OF assms(4)]) simp_all
  qed (simp_all add: assign_new_def alloc_def bind_var_def)
  from jack_turns[OF inv, where n = ?n and w = w and js = "[0..<?n]"]
  obtain t where t: "run (concat (map (\<lambda>i. stmt_bind_i i # jack_body i) [0..<?n])) w ?s5 = (None, t)"
    "jack_inv t (nxt s, nxt s + 1, nxt s + 2) (lv, mv, wv)
        (fold (\<lambda>i m. m[i := leave_one_out lv i]) [0..<?n] ?Z,
         fold (\<lambda>i m. m[i := leave_one_out mv i]) [0..<?n] ?Z,
         fold (\<lambda>i m. m[i := leave_one_out wv i]) [0..<?n] ?Z)"
    using assms(5,6) by (auto simp: rect_def)
  have r6: "stmt_jack_loop w ?s5 = (None, t)"
    by (simp only: stmt_jack_loop_def for_range_def g5 sum.case nat_int t(1))
  have rn: "run cell_jack_fill w s = (None, t)"
    by (simp only: cell_jack_fill_def run.simps r1 r2 r3 r4 r5 r6 prod.case option.case)
  let ?L = "map (leave_one_out lv) [0..<?n]" and ?M = "map (leave_one_out mv) [0..<?n]"
    and ?W = "map (leave_one_out wv) [0..<?n]"
  have inv': "jack_inv t (nxt s, nxt s + 1, nxt s + 2) (lv, mv, wv) (?L, ?M, ?W)"
    using t(2) by (simp add: fold_update_all)
  have pure: "jackknife_subsets ?z lv mv wv = Inr (?L, ?M, ?W)"
    by (rule jackknife_subsets_eq[OF assms(5,6,7)])
  show ?thesis
    by (rule exI[of _ t], rule exI[of _ ?L], rule exI[of _ ?M], rule exI[of _ ?W])
       (intro conjI rn pure array2_of_inv[OF inv'])
qed

text \<open>Over the exact kernels the function of the store model is \<open>int_to_H0\<close>.\<close>

lemma int_to_H0_exact: "int_to_H0_f exact b = int_to_H0 b"
  by (simp add: int_to_H0_f_def exact_def int_to_H0_def)

section \<open>Claims on values and shapes\<close>

text \<open>
  C1. Every run of the bootstrap resampling step returns: \<open>hboot\<close> has 10000 rows
  (\<open>nbootstraps\<close>), each of the length of the original 1-D array, and every element of
  every row is an element of the original array (repeats are not excluded). The index
  array \<open>rand_indices\<close> has the same shape, and each of its entries is a valid index.
\<close>

theorem bootstrap_resample_shape:
  "\<exists>m idx. hboot draws a = Inr m \<and> length m = 10000
     \<and> (\<forall>r \<in> set m. length r = length a \<and> set r \<subseteq> set a)
     \<and> rand_indices draws mu = Inr idx \<and> length idx = 10000
     \<and> (\<forall>r \<in> set idx. length r = length mu \<and> (\<forall>k \<in> set r. k < length mu))"
proof -
  obtain m where m: "hboot draws a = Inr m" using hboot_returns by blast
  then have c: "choice draws a (10000, length a) = Inr m" by (simp add: hboot_def)
  obtain idx where idx: "randint draws 0 (length mu) (10000, length mu) = Inr idx"
    using rand_indices_returns by blast
  show ?thesis
    using m choice_shape[OF c] idx randint_shape[OF idx]
    by (auto simp: rand_indices_def)
qed

theorem bootstrap_resample_shape_witness:
  "\<exists>m idx. hboot (\<lambda>k. k) [70, 72 :: int] = Inr m \<and> length m = 10000
     \<and> hd m \<in> set m \<and> length (hd m) = 2 \<and> set (hd m) \<subseteq> {70, 72}
     \<and> rand_indices (\<lambda>k. k) [1, 2, 3 :: int] = Inr idx
     \<and> hd idx \<in> set idx \<and> length (hd idx) = 3"
proof -
  from bootstrap_resample_shape[of "\<lambda>k. k" "[70, 72 :: int]" "[1, 2, 3 :: int]"]
  obtain m idx where m: "hboot (\<lambda>k. k) [70, 72 :: int] = Inr m" "length m = 10000"
    and rows: "\<forall>r \<in> set m. length r = length [70, 72 :: int] \<and> set r \<subseteq> set [70, 72 :: int]"
    and idx: "rand_indices (\<lambda>k. k) [1, 2, 3 :: int] = Inr idx" "length idx = 10000"
    and irows: "\<forall>r \<in> set idx. length r = length [1, 2, 3 :: int]
                  \<and> (\<forall>k \<in> set r. k < length [1, 2, 3 :: int])"
    by blast
  have "m \<noteq> []" "idx \<noteq> []" using m(2) idx(2) by auto
  then have "hd m \<in> set m" "hd idx \<in> set idx" by simp_all
  then show ?thesis using m idx rows irows by auto
qed

text \<open>
  C2. With \<open>n\<close> leave-one-out estimates in \<open>h0_jack\<close> (\<open>n \<ge> 1\<close>),
  \<open>h0_sigma_jack\<close> is a number: the standard deviation of the estimates times
  \<open>sqrt (n - 1)\<close>, so its square is \<open>(n - 1)\<close> times the sample variance, the mean
  squared deviation of the estimates from their mean.
\<close>

theorem jackknife_sigma:
  assumes "length h0_jack = ndata" and "0 < ndata"
  shows "\<exists>sigma_jack sigma_sample m.
           h0_sigma_jack h0_jack ndata = Some sigma_jack
         \<and> np_std h0_jack = Some sigma_sample
         \<and> np_mean h0_jack = Some m
         \<and> sigma_sample ^ 2 = (\<Sum>x\<leftarrow>h0_jack. (x - m) ^ 2) / real ndata
         \<and> sigma_jack = sigma_sample * sqrt (real ndata - 1)
         \<and> sigma_jack ^ 2 = (real ndata - 1) * sigma_sample ^ 2"
proof -
  have ne: "h0_jack \<noteq> []" using assms by auto
  define m where "m = sum_list h0_jack / real (length h0_jack)"
  define v where "v = (\<Sum>x\<leftarrow>h0_jack. \<bar>x - m\<bar> ^ 2) / real (length h0_jack)"
  have mean: "np_mean h0_jack = Some m" using ne by (simp add: np_mean_def m_def)
  have var: "np_mean (map (\<lambda>x. \<bar>x - m\<bar> ^ 2) h0_jack) = Some v"
    using ne by (simp add: np_mean_def v_def)
  have v0: "0 \<le> v" using np_mean_sq_nonneg[OF var] .
  have var': "np_mean (map (\<lambda>x. (x - m) ^ 2) h0_jack) = Some v"
    using var by simp
  have std: "np_std h0_jack = Some (sqrt v)"
    using v0 by (simp add: np_std_def mean var' np_sqrt_def)
  have n1: "(0::real) \<le> real ndata - 1" using assms(2) by simp
  have root: "np_sqrt (real ndata - 1) = Some (sqrt (real ndata - 1))"
    using n1 by (simp add: np_sqrt_def)
  have sj: "h0_sigma_jack h0_jack ndata = Some (sqrt v * sqrt (real ndata - 1))"
    by (simp add: h0_sigma_jack_def nan_mult_def std root)
  have sq: "(sqrt v * sqrt (real ndata - 1)) ^ 2 = (real ndata - 1) * (sqrt v) ^ 2"
    using n1 by (simp add: power_mult_distrib)
  have vs: "(sqrt v) ^ 2 = (\<Sum>x\<leftarrow>h0_jack. (x - m) ^ 2) / real ndata"
    using v0 assms(1) by (simp add: v_def)
  show ?thesis using sj std mean sq vs by blast
qed

theorem jackknife_sigma_witness:
  "\<exists>sigma_jack sigma_sample m.
     h0_sigma_jack [70, 72, 74] 3 = Some sigma_jack
   \<and> np_std [70, 72, 74] = Some sigma_sample
   \<and> np_mean [70, 72, 74] = Some m
   \<and> sigma_jack ^ 2 = (real 3 - 1) * sigma_sample ^ 2"
  using jackknife_sigma[of "[70, 72, 74]" 3] by auto

text \<open>
  C3. For columns of one length \<open>n \<ge> 1\<close> the jackknife cell returns, and for every
  \<open>i < n\<close> row \<open>i\<close> of each jackknife array is its column without element \<open>i\<close>: it has
  length \<open>n - 1\<close>, its first \<open>i\<close> elements are the column's first \<open>i\<close> elements, and
  the rest are the column's elements after position \<open>i\<close>, in their order.
\<close>

theorem jackknife_rows:
  assumes "length logv = length mu" "length weight = length mu" "mu \<noteq> []"
  shows "\<exists>logv_jack mu_jack weight_jack.
           jackknife_subsets zero logv mu weight = Inr (logv_jack, mu_jack, weight_jack)
         \<and> length logv_jack = length mu \<and> length mu_jack = length mu
         \<and> length weight_jack = length mu
         \<and> (\<forall>i < length mu.
               logv_jack ! i = take i logv @ drop (i + 1) logv
             \<and> mu_jack ! i = take i mu @ drop (i + 1) mu
             \<and> weight_jack ! i = take i weight @ drop (i + 1) weight
             \<and> length (logv_jack ! i) = length mu - 1
             \<and> length (mu_jack ! i) = length mu - 1
             \<and> length (weight_jack ! i) = length mu - 1
             \<and> take i (logv_jack ! i) = take i logv \<and> drop i (logv_jack ! i) = drop (i + 1) logv
             \<and> take i (mu_jack ! i) = take i mu \<and> drop i (mu_jack ! i) = drop (i + 1) mu
             \<and> take i (weight_jack ! i) = take i weight
             \<and> drop i (weight_jack ! i) = drop (i + 1) weight)"
proof -
  have parts: "length (leave_one_out x i) = length x - 1
      \<and> take i (leave_one_out x i) = take i x \<and> drop i (leave_one_out x i) = drop (i + 1) x"
    if "i < length x" for x :: "'a list" and i
    using that by (simp add: leave_one_out_def)
  show ?thesis
    using assms parts[of _ logv] parts[of _ mu] parts[of _ weight]
    by (simp add: jackknife_subsets_eq) (simp add: leave_one_out_def)
qed

theorem jackknife_rows_witness:
  "\<exists>logv_jack mu_jack weight_jack.
     jackknife_subsets (0::int) [1, 2, 3] [4, 5, 6] [7, 8, 9] = Inr (logv_jack, mu_jack, weight_jack)
   \<and> length logv_jack = 3
   \<and> logv_jack ! 0 = [2, 3] \<and> mu_jack ! 1 = [4, 6] \<and> weight_jack ! 2 = [7, 8]"
proof -
  from jackknife_rows[of "[1, 2, 3 :: int]" "[4, 5, 6]" "[7, 8, 9]" 0]
  obtain lj mj wj where run: "jackknife_subsets (0::int) [1, 2, 3] [4, 5, 6] [7, 8, 9] = Inr (lj, mj, wj)"
    and len: "length lj = length [4, 5, 6 :: int]"
    and rows: "\<forall>i < length [4, 5, 6 :: int].
                 lj ! i = take i [1, 2, 3] @ drop (i + 1) [1, 2, 3]
               \<and> mj ! i = take i [4, 5, 6] @ drop (i + 1) [4, 5, 6]
               \<and> wj ! i = take i [7, 8, 9] @ drop (i + 1) [7, 8, 9]"
    by auto
  have "lj ! 0 = [2, 3]" "mj ! 1 = [4, 6]" "wj ! 2 = [7, 8]"
    using rows[rule_format, of 0] rows[rule_format, of 1] rows[rule_format, of 2] by simp_all
  then show ?thesis using run len by simp
qed


text \<open>
  C9. Over the reals \<open>int_to_H0\<close> is strictly decreasing; so for a positive intercept
  error \<open>e\<close> the value at \<open>b - e\<close> is above the value at \<open>b + e\<close>, and the symmetric
  error \<open>h0_best_err\<close> is positive. As binary64 computes them, with a power that is
  monotone (and results that are finite numbers), \<open>int_to_H0\<close> does not increase and
  \<open>h0_best_err\<close> is not negative; the strict order does not carry over to binary64.
\<close>

theorem int_to_H0_decreasing:
  "(b1 < b2 \<longrightarrow> int_to_H0 b2 < int_to_H0 b1)
   \<and> (0 < e \<longrightarrow> int_to_H0 (b + e) < int_to_H0 (b - e) \<and> 0 < h0_best_err b e)
   \<and> (mono pow10 \<and> b1 \<le> b2 \<longrightarrow> int_to_H0_b64 pow10 b2 \<le> int_to_H0_b64 pow10 b1)
   \<and> (mono pow10 \<and> 0 \<le> e \<longrightarrow>
         int_to_H0_b64 pow10 (b64 (b + e)) \<le> int_to_H0_b64 pow10 (b64 (b - e))
       \<and> 0 \<le> h0_best_err_b64 pow10 b e)"
proof -
  have decr: "int_to_H0 y < int_to_H0 x" if "x < y" for x y :: real
  proof -
    have "- 0.2 * y < - 0.2 * x" using that by simp
    then have "(10::real) powr (- 0.2 * y) < 10 powr (- 0.2 * x)"
      by simp
    then show ?thesis by (simp add: int_to_H0_def)
  qed
  have err: "int_to_H0 (b + e) < int_to_H0 (b - e) \<and> 0 < h0_best_err b e" if "0 < e"
  proof -
    have "b - e < b + e" using that by simp
    then have "int_to_H0 (b + e) < int_to_H0 (b - e)" by (rule decr)
    then show ?thesis by (simp add: h0_best_err_def)
  qed
  have weak: "int_to_H0_b64 pow10 b2 \<le> int_to_H0_b64 pow10 b1" if "mono pow10 \<and> b1 \<le> b2"
    using that by (intro int_to_H0_b64_antimono) simp_all
  have werr: "int_to_H0_b64 pow10 (b64 (b + e)) \<le> int_to_H0_b64 pow10 (b64 (b - e))
       \<and> 0 \<le> h0_best_err_b64 pow10 b e" if m: "mono pow10 \<and> 0 \<le> e"
  proof
    have "b64 (b - e) \<le> b64 (b + e)" using m by (intro b64_mono) simp
    then show "int_to_H0_b64 pow10 (b64 (b + e)) \<le> int_to_H0_b64 pow10 (b64 (b - e))"
      using m by (intro int_to_H0_b64_antimono) simp_all
    show "0 \<le> h0_best_err_b64 pow10 b e"
      using m by (intro h0_best_err_b64_nonneg) simp_all
  qed
  show ?thesis using decr err weak werr by blast
qed

theorem int_to_H0_decreasing_witness:
  "(0::real) < 5 \<and> int_to_H0 5 < int_to_H0 0
   \<and> (0::real) < 1 \<and> int_to_H0 (4 + 1) < int_to_H0 (4 - 1) \<and> 0 < h0_best_err 4 1
   \<and> mono pow10_nearest \<and> (0::real) \<le> 5
   \<and> int_to_H0_b64 pow10_nearest 5 \<le> int_to_H0_b64 pow10_nearest 0
   \<and> (0::real) \<le> 1
   \<and> int_to_H0_b64 pow10_nearest (b64 (4 + 1)) \<le> int_to_H0_b64 pow10_nearest (b64 (4 - 1))
   \<and> 0 \<le> h0_best_err_b64 pow10_nearest 4 1"
  using int_to_H0_decreasing[of 0 5 1 4 pow10_nearest] mono_pow10_nearest by simp

text \<open>
  In binary64 the strict order of C9 fails, whatever double the power returns. The
  doubles \<open>6\<close> and \<open>6 + 2 ^ - 50\<close> (the next double above \<open>6\<close>) have the same rounded
  product with \<open>- 0.2\<close>, hence the same \<open>int_to_H0\<close>; and for the positive intercept
  error \<open>1e-20\<close> (the double nearest to it), \<open>4 - e\<close> and \<open>4 + e\<close> both round to
  \<open>4\<close>, so \<open>h0_best_err\<close> is \<open>0\<close>.
\<close>

theorem int_to_H0_b64_collapses:
  "\<forall>pow10. b64 6 = 6 \<and> b64 (6 + 1 / 2 ^ 50) = 6 + 1 / 2 ^ 50
     \<and> (6::real) < 6 + 1 / 2 ^ 50
     \<and> int_to_H0_b64 pow10 (6 + 1 / 2 ^ 50) = int_to_H0_b64 pow10 6
     \<and> b64 4 = 4 \<and> b64 d_1e_20 = d_1e_20
     \<and> 0 < d_1e_20
     \<and> int_to_H0_b64 pow10 (b64 (4 - d_1e_20)) = int_to_H0_b64 pow10 (b64 (4 + d_1e_20))
     \<and> h0_best_err_b64 pow10 4 d_1e_20 = 0"
proof
  fix pow10 :: "real \<Rightarrow> real"
  have a: "b64 (- b64 0.2 * (6 + 1 / 2 ^ 50)) = b64 (- b64 0.2 * 6)"
  proof -
    have "b64 (- b64 0.2 * (6 + 1 / 2 ^ 50))
        = - b64 (3602879701896397 / 2 ^ 54 * (6 + 1 / 2 ^ 50))"
      by (simp only: b64_fifth mult_minus_left b64_minus)
    also have "\<dots> = - b64 (3602879701896397 / 2 ^ 54 * 6)"
      by (simp only: b64_prod_6 b64_prod_6_next)
    also have "\<dots> = b64 (- b64 0.2 * 6)"
      by (simp only: b64_fifth mult_minus_left b64_minus)
    finally show ?thesis .
  qed
  have c: "int_to_H0_b64 pow10 (6 + 1 / 2 ^ 50) = int_to_H0_b64 pow10 6"
    unfolding int_to_H0_b64_def by (simp only: a)
  have d: "int_to_H0_b64 pow10 (b64 (4 - d_1e_20)) = int_to_H0_b64 pow10 (b64 (4 + d_1e_20))"
    by (simp only: b64_4_minus b64_4_plus)
  have e: "h0_best_err_b64 pow10 4 d_1e_20 = 0"
    unfolding h0_best_err_b64_def by (simp only: b64_4_minus b64_4_plus) (simp add: b64_0)
  show "b64 6 = 6 \<and> b64 (6 + 1 / 2 ^ 50) = 6 + 1 / 2 ^ 50
     \<and> (6::real) < 6 + 1 / 2 ^ 50
     \<and> int_to_H0_b64 pow10 (6 + 1 / 2 ^ 50) = int_to_H0_b64 pow10 6
     \<and> b64 4 = 4 \<and> b64 d_1e_20 = d_1e_20
     \<and> 0 < d_1e_20
     \<and> int_to_H0_b64 pow10 (b64 (4 - d_1e_20)) = int_to_H0_b64 pow10 (b64 (4 + d_1e_20))
     \<and> h0_best_err_b64 pow10 4 d_1e_20 = 0"
    using c d e b64_6 b64_6_next b64_4 b64_d_1e_20 by (simp add: d_1e_20_def)
qed



text \<open>
  C6. The columns read from one table have the table's row count \<open>n\<close>: \<open>cz\<close>,
  \<open>logv\<close>, \<open>mu\<close>, \<open>sigma_mu\<close> and \<open>weight\<close> of the supernova table, and the columns
  of the filtered measurement table. Resampling keeps the correspondence: every row of
  \<open>rand_indices\<close> has length \<open>n\<close> and holds valid positions of all three columns, every
  row of \<open>hboot\<close> has the length of the column it resamples, and on a non-empty table the
  jackknife arrays of the three columns have \<open>n\<close> rows of length \<open>n - 1\<close> each. (On an
  empty table \<open>np.zeros\<close> raises \<open>ValueError\<close> and there is no jackknife subset.)
\<close>

theorem dependent_columns_match:
  assumes "sn_columns k data = (cz, logv, mu, sigma_mu, weight)"
    and "data_modern = query_date k hubble"
  shows "length cz = length data \<and> length logv = length data \<and> length mu = length data
       \<and> length sigma_mu = length data \<and> length weight = length data
       \<and> length (map h0 data_modern) = length data_modern
       \<and> length (map ep data_modern) = length data_modern
       \<and> length (map em data_modern) = length data_modern
       \<and> length (map date data_modern) = length data_modern
       \<and> (\<exists>m. hboot draws (map h0 data_modern) = Inr m
             \<and> (\<forall>r \<in> set m. length r = length data_modern))
       \<and> (\<exists>idx. rand_indices draws mu = Inr idx
             \<and> (\<forall>r \<in> set idx. length r = length data
                   \<and> (\<forall>j \<in> set r. j < length logv \<and> j < length mu \<and> j < length weight)))
       \<and> (data \<noteq> [] \<longrightarrow>
             (\<exists>logv_jack mu_jack weight_jack.
                 jackknife_subsets zero logv mu weight = Inr (logv_jack, mu_jack, weight_jack)
               \<and> length logv_jack = length data \<and> length mu_jack = length data
               \<and> length weight_jack = length data
               \<and> (\<forall>r \<in> set logv_jack \<union> set mu_jack \<union> set weight_jack.
                     length r = length data - 1)))
       \<and> (data = [] \<longrightarrow> jackknife_subsets zero logv mu weight = Inl ValueError)"
proof -
  from assms(1) have cols: "cz = map row_cz data" "logv = np_log10 k (map row_cz data)"
    "mu = map row_mu data" "sigma_mu = map row_sigma_mu data"
    "weight = inv_square k (map row_sigma_mu data)"
    by (auto simp: sn_columns_def Let_def)
  have len: "length cz = length data" "length logv = length data" "length mu = length data"
    "length sigma_mu = length data" "length weight = length data"
    by (simp_all add: cols np_log10_def inv_square_def)
  obtain m where m: "hboot draws (map h0 data_modern) = Inr m"
    using hboot_returns by blast
  then have c: "choice draws (map h0 data_modern) (10000, length (map h0 data_modern)) = Inr m"
    by (simp add: hboot_def)
  have boot: "\<forall>r \<in> set m. length r = length data_modern"
    using choice_shape(2)[OF c] by simp
  obtain idx where idx: "randint draws 0 (length mu) (10000, length mu) = Inr idx"
    using rand_indices_returns by blast
  have ri: "rand_indices draws mu = Inr idx"
    using idx by (simp add: rand_indices_def)
  have rows: "\<forall>r \<in> set idx. length r = length data
                \<and> (\<forall>j \<in> set r. j < length logv \<and> j < length mu \<and> j < length weight)"
    using randint_shape(2,3)[OF idx] len by auto
  have jack: "\<exists>logv_jack mu_jack weight_jack.
                 jackknife_subsets zero logv mu weight = Inr (logv_jack, mu_jack, weight_jack)
               \<and> length logv_jack = length data \<and> length mu_jack = length data
               \<and> length weight_jack = length data
               \<and> (\<forall>r \<in> set logv_jack \<union> set mu_jack \<union> set weight_jack.
                     length r = length data - 1)"
    if ne: "data \<noteq> []"
  proof -
    have mu: "mu \<noteq> []" using ne len(3) by auto
    have eq: "jackknife_subsets zero logv mu weight =
           Inr (map (leave_one_out logv) [0..<length mu],
                map (leave_one_out mu) [0..<length mu],
                map (leave_one_out weight) [0..<length mu])"
      using len mu by (intro jackknife_subsets_eq) simp_all
    show ?thesis
      unfolding eq using len by (auto simp: length_leave_one_out)
  qed
  have empty: "jackknife_subsets zero logv mu weight = Inl ValueError" if "data = []"
    using that len(3) by (simp add: jackknife_subsets_def np_zeros2_def)
  show ?thesis
    using len m boot ri rows jack empty by (simp add: assms(2))
qed

theorem dependent_columns_match_witness:
  "(\<exists>logv weight idx logv_jack mu_jack weight_jack m.
     sn_columns exact demo_sn = ([100, 1000], logv, [30, 35], [1, 2], weight)
   \<and> length logv = 2 \<and> length weight = 2
   \<and> rand_indices (\<lambda>j. j) [30, 35 :: real] = Inr idx
   \<and> hd idx \<in> set idx \<and> length (hd idx) = 2
   \<and> jackknife_subsets 0 logv [30, 35] weight = Inr (logv_jack, mu_jack, weight_jack)
   \<and> hd logv_jack \<in> set logv_jack \<and> length (hd logv_jack) = 1
   \<and> length (query_date exact demo_hubble) = 2
   \<and> hboot (\<lambda>j. j) (map h0 (query_date exact demo_hubble)) = Inr m
   \<and> hd m \<in> set m \<and> length (hd m) = 2)
 \<and> sn_columns exact [] = ([], [], [], [], [])
 \<and> jackknife_subsets (0::real) [] [] [] = Inl ValueError"
proof
  let ?logv = "np_log10 exact [100, 1000]"
  let ?weight = "inv_square exact [1, 2]"
  let ?dm = "query_date exact demo_hubble"
  have cols: "sn_columns exact demo_sn = ([100, 1000], ?logv, [30, 35], [1, 2], ?weight)"
    by (simp add: sn_columns_def Let_def demo_sn_def)
  have ne: "demo_sn \<noteq> []" by (simp add: demo_sn_def)
  have n2: "length demo_sn = 2" by (simp add: demo_sn_def)
  have dm: "length ?dm = 2"
    by (simp add: query_date_def exact_def demo_hubble_def)
  note t = dependent_columns_match[OF cols refl, where zero = 0 and draws = "\<lambda>j. j"
      and hubble = demo_hubble]
  from t ne obtain idx lj mj wj m where len: "length ?logv = 2" "length ?weight = 2"
    and ri: "rand_indices (\<lambda>j. j) [30, 35 :: real] = Inr idx"
    and rows: "\<forall>r \<in> set idx. length r = 2"
    and jk: "jackknife_subsets 0 ?logv [30, 35] ?weight = Inr (lj, mj, wj)"
      "length lj = 2" "\<forall>r \<in> set lj \<union> set mj \<union> set wj. length r = 2 - 1"
    and hb: "hboot (\<lambda>j. j) (map h0 ?dm) = Inr m" "\<forall>r \<in> set m. length r = length ?dm"
    unfolding n2 by blast
  have "randint (\<lambda>j. j) 0 (length [30, 35 :: real]) (10000, length [30, 35 :: real]) = Inr idx"
    using ri unfolding rand_indices_def Let_def .
  then have "length idx = 10000" by (rule randint_shape(1))
  then have "idx \<noteq> []" by auto
  then have i: "hd idx \<in> set idx" by simp
  have "lj \<noteq> []" using jk(2) by auto
  then have j: "hd lj \<in> set lj" by simp
  have "choice (\<lambda>j. j) (map h0 ?dm) (10000, length (map h0 ?dm)) = Inr m"
    using hb(1) unfolding hboot_def Let_def .
  then have "length m = 10000" by (rule choice_shape(1))
  then have "m \<noteq> []" by auto
  then have k: "hd m \<in> set m" by simp
  have l1: "length (hd idx) = 2" using rows i by blast
  have l2: "length (hd lj) = 1" using jk(3) j by auto
  have l3: "length (hd m) = 2" using hb(2) k dm by auto
  show "\<exists>logv weight idx logv_jack mu_jack weight_jack m.
     sn_columns exact demo_sn = ([100, 1000], logv, [30, 35], [1, 2], weight)
   \<and> length logv = 2 \<and> length weight = 2
   \<and> rand_indices (\<lambda>j. j) [30, 35 :: real] = Inr idx
   \<and> hd idx \<in> set idx \<and> length (hd idx) = 2
   \<and> jackknife_subsets 0 logv [30, 35] weight = Inr (logv_jack, mu_jack, weight_jack)
   \<and> hd logv_jack \<in> set logv_jack \<and> length (hd logv_jack) = 1
   \<and> length ?dm = 2
   \<and> hboot (\<lambda>j. j) (map h0 ?dm) = Inr m
   \<and> hd m \<in> set m \<and> length (hd m) = 2"
    using cols len ri i l1 jk(1) j l2 dm hb(1) k l3 by blast
next
  have cols0: "sn_columns exact [] = ([], [], [], [], [])"
    by (simp add: sn_columns_def Let_def np_log10_def inv_square_def)
  from dependent_columns_match[OF cols0 refl, where zero = "0::real" and draws = "\<lambda>j. j"
      and hubble = "[]"]
  have "jackknife_subsets (0::real) [] [] [] = Inl ValueError" by blast
  with cols0 show "sn_columns exact [] = ([], [], [], [], [])
     \<and> jackknife_subsets (0::real) [] [] [] = Inl ValueError"
    by blast
qed

section \<open>Claims on effects and errors\<close>

text \<open>
  C4. In the smoothing cell the noise is added to the resample before the medians are
  taken. From a state where \<open>hboot\<close> names an array of \<open>nbootstraps\<close> rows of \<open>ndata\<close>
  elements, the cell returns; \<open>sboot\<close> is a new array whose element \<open>(i, j)\<close> is the
  sum of element \<open>(i, j)\<close> of \<open>hboot\<close> and the next normal variate; element \<open>i\<close> of
  \<open>h0_median_smoothed\<close> is the median kernel applied to row \<open>i\<close> of \<open>sboot\<close>; and
  \<open>hboot\<close> names the same array, with the same contents, after each of the two
  statements.
\<close>

theorem jitter_before_median:
  assumes "heap_wf s"
    and "array2 s ''hboot'' = Inr (a, H)"
    and "get_shape s ''nbootstraps'' ''ndata'' = Inr (N, n)"
    and "length H = N" and "rect n H"
  shows "\<exists>s1 s2 b c.
           stmt_sboot w s = (None, s1)
         \<and> stmt_h0_median_smoothed w s1 = (None, s2)
         \<and> run cell_smooth w s = (None, s2)
         \<and> array2 s1 ''sboot'' =
             Inr (b, map (\<lambda>i. map (\<lambda>j. k_add (kern w) (H ! i ! j) (normals w (rng s + (i * n + j))))
                                [0..<n]) [0..<N])
         \<and> b \<noteq> a
         \<and> array1 s2 ''h0_median_smoothed'' =
             Inr (c, map (\<lambda>i. k_median (kern w)
                            (map (\<lambda>j. k_add (kern w) (H ! i ! j) (normals w (rng s + (i * n + j))))
                               [0..<n])) [0..<N])
         \<and> array2 s1 ''hboot'' = Inr (a, H)
         \<and> array2 s2 ''hboot'' = Inr (a, H)
         \<and> heap s2 a = heap s a"
proof -
  let ?noise = "randn (\<lambda>j. normals w (rng s + j)) (N, n)"
  let ?S = "map (\<lambda>i. map (\<lambda>j. k_add (kern w) (H ! i ! j) (normals w (rng s + (i * n + j))))
                                [0..<n]) [0..<N]"
  let ?s0 = "s\<lparr>rng := rng s + N * n\<rparr>"
  let ?s1 = "assign_new ''sboot'' (Arr2 ?S) ?s0"
  let ?M = "map (k_median (kern w)) ?S"
  let ?s2 = "assign_new ''h0_median_smoothed'' (Arr1 ?M) ?s1"
  have wf0: "heap_wf ?s0" using assms(1) by (simp add: heap_wf_def)
  have wf1: "heap_wf ?s1" using assign_new_facts(6)[OF wf0] .
  have "np_add2 (k_add (kern w)) H ?noise =
          Inr (map (\<lambda>i. map (\<lambda>j. k_add (kern w) (H ! i ! j) (?noise ! i ! j)) [0..<n]) [0..<N])"
    by (rule np_add2_same_shape[OF assms(4) length_randn assms(5) rect_randn])
  also have "map (\<lambda>i. map (\<lambda>j. k_add (kern w) (H ! i ! j) (?noise ! i ! j)) [0..<n]) [0..<N] = ?S"
    by (intro map_cong refl) (simp add: nth_randn)
  finally have add: "np_add2 (k_add (kern w)) H ?noise = Inr ?S" .
  have sb: "stmt_sboot w s = (None, ?s1)"
    by (simp add: stmt_sboot_def assms(2,3) bind_err_def add assign_obj_def)
  have b: "array2 ?s1 ''sboot'' = Inr (nxt s, ?S)"
    using array2_assign_new_same[OF wf0] by simp
  have md: "stmt_h0_median_smoothed w ?s1 = (None, ?s2)"
    by (simp add: stmt_h0_median_smoothed_def b bind_err_def assign_obj_def)
  have rn: "run cell_smooth w s = (None, ?s2)"
    by (simp add: cell_smooth_def sb md)
  have h0: "array2 ?s0 ''hboot'' = Inr (a, H)" using assms(2) by (simp add: array2_rng)
  have h1: "array2 ?s1 ''hboot'' = Inr (a, H)"
    by (rule array2_after_assign_new[OF wf0 h0]) simp
  have h2: "array2 ?s2 ''hboot'' = Inr (a, H)"
    by (rule array2_after_assign_new[OF wf1 h1]) simp
  have ha: "heap s a = Some (Arr2 H)" using assms(2) by (rule array2_heap)
  have ne: "nxt s \<noteq> a" using ha assms(1) by (auto simp: heap_wf_def)
  have keep: "heap ?s2 a = heap s a" using array2_heap[OF h2] ha by simp
  have c: "array1 ?s2 ''h0_median_smoothed'' = Inr (nxt ?s1, ?M)"
    by (simp add: array1_def deref_def get_var_def bind_err_def assign_new_def alloc_def
        bind_var_def)
  have M: "?M = map (\<lambda>i. k_median (kern w)
                            (map (\<lambda>j. k_add (kern w) (H ! i ! j) (normals w (rng s + (i * n + j))))
                               [0..<n])) [0..<N]"
    by (simp add: comp_def)
  have cM: "array1 ?s2 ''h0_median_smoothed'' =
             Inr (nxt ?s1, map (\<lambda>i. k_median (kern w)
                            (map (\<lambda>j. k_add (kern w) (H ! i ! j) (normals w (rng s + (i * n + j))))
                               [0..<n])) [0..<N])"
    unfolding M[symmetric] by (rule c)
  show ?thesis
    by (rule exI[of _ ?s1], rule exI[of _ ?s2], rule exI[of _ "nxt s"], rule exI[of _ "nxt ?s1"])
       (intro conjI sb md rn b ne cM h1 h2 keep)
qed

theorem jitter_before_median_witness:
  "(\<exists>s1 s2 b c.
     stmt_sboot demo demo_state = (None, s1)
   \<and> run cell_smooth demo demo_state = (None, s2)
   \<and> array2 s1 ''sboot'' = Inr (b, [[141 / 2, 145 / 2], [145 / 2, 145 / 2]])
   \<and> array1 s2 ''h0_median_smoothed'' = Inr (c, [143 / 2, 145 / 2])
   \<and> array2 s2 ''hboot'' = Inr (0, [[70, 72], [72, 72]]))
 \<and> (\<exists>s2 m. run cell_smooth demo (session [cell_load, cell_cut, cell_boot] demo init) = (None, s2)
        \<and> array2 (session [cell_load, cell_cut, cell_boot] demo init) ''hboot'' = Inr (2, m)
        \<and> length m = 10000
        \<and> array2 s2 ''hboot'' = Inr (2, m))"
proof
  let ?H = "[[70, 72], [72, 72 :: real]]"
  have wf: "heap_wf demo_state"
    by (simp add: demo_state_def heap_wf_def init_def assign_new_def alloc_def bind_var_def)
  have hb: "array2 demo_state ''hboot'' = Inr (0, ?H)"
    by (simp add: demo_state_def array2_def deref_def get_var_def bind_err_def init_def
        assign_new_def alloc_def bind_var_def)
  have sh: "get_shape demo_state ''nbootstraps'' ''ndata'' = Inr (2, 2)"
    by (simp add: demo_state_def get_shape_def get_int_def get_var_def bind_err_def to_dim_def
        init_def assign_new_def alloc_def bind_var_def)
  have len: "length ?H = 2" by simp
  have rc: "rect 2 ?H" by (simp add: rect_def)
  have two: "[0..<2] = [0, 1]" by (simp add: upt_rec)
  have med: "k_median (kern demo) [141 / 2, 145 / 2] = 143 / 2"
    "k_median (kern demo) [145 / 2, 145 / 2] = 145 / 2"
    by (simp_all add: demo_def exact_def num_def np_median_def)
  from jitter_before_median[OF wf hb sh len rc, of demo]
  obtain s1 s2 b c where r: "stmt_sboot demo demo_state = (None, s1)"
    "run cell_smooth demo demo_state = (None, s2)"
    "array2 s1 ''sboot'' =
       Inr (b, map (\<lambda>i. map (\<lambda>j. k_add (kern demo) (?H ! i ! j)
                              (normals demo (rng demo_state + (i * 2 + j)))) [0..<2]) [0..<2])"
    "array1 s2 ''h0_median_smoothed'' =
       Inr (c, map (\<lambda>i. k_median (kern demo)
                      (map (\<lambda>j. k_add (kern demo) (?H ! i ! j)
                              (normals demo (rng demo_state + (i * 2 + j)))) [0..<2])) [0..<2])"
    "array2 s2 ''hboot'' = Inr (0, ?H)"
    by blast
  have add: "k_add (kern demo) x (normals demo j) = x + 1 / 2" for x j
    by (simp add: demo_def exact_def)
  have "array2 s1 ''sboot'' = Inr (b, [[141 / 2, 145 / 2], [145 / 2, 145 / 2]])"
    using r(3) by (simp add: two add)
  moreover have "array1 s2 ''h0_median_smoothed'' = Inr (c, [143 / 2, 145 / 2])"
    using r(4) by (simp add: two add med)
  ultimately show "\<exists>s1 s2 b c.
     stmt_sboot demo demo_state = (None, s1)
   \<and> run cell_smooth demo demo_state = (None, s2)
   \<and> array2 s1 ''sboot'' = Inr (b, [[141 / 2, 145 / 2], [145 / 2, 145 / 2]])
   \<and> array1 s2 ''h0_median_smoothed'' = Inr (c, [143 / 2, 145 / 2])
   \<and> array2 s2 ''hboot'' = Inr (0, [[70, 72], [72, 72]])"
    using r(1,2,5) by blast
next
  let ?Sa = "assign_new ''data'' (Table (Hubble demo_hubble)) (init :: real state)"
  let ?dm = "query_date (kern demo) demo_hubble"
  let ?S = "assign_new ''data_modern'' (Table (Hubble ?dm)) ?Sa"
  let ?T = "session [cell_load, cell_cut, cell_boot] demo init"
  have wf0: "heap_wf (init :: real state)" by (simp add: heap_wf_def init_def)
  have wfS0: "heap_wf ?Sa" using assign_new_facts(6)[OF wf0] .
  have wfS: "heap_wf ?S" using assign_new_facts(6)[OF wfS0] .
  have l: "run cell_load demo init = (None, ?Sa)"
    by (simp add: cell_load_def stmt_load_hubble_def read_fwf_def demo_def bind_err_def
        assign_obj_def)
  have d: "deref ?Sa ''data'' = Inr (0, Table (Hubble demo_hubble))"
    by (simp add: deref_def get_var_def bind_err_def assign_new_def alloc_def bind_var_def
        init_def)
  have q: "run cell_cut demo ?Sa = (None, ?S)"
    by (simp add: cell_cut_def stmt_data_modern_def d bind_err_def assign_obj_def
        query_table_def)
  have dm: "?dm = [demo_hubble ! 0, demo_hubble ! 2]"
    by (simp add: query_date_def demo_def exact_def demo_hubble_def)
  have col: "column ?S ''data_modern'' ''h0'' = Inr (map h0 ?dm)"
    by (simp add: column_def deref_def get_var_def bind_err_def assign_new_def alloc_def
        bind_var_def init_def table_col_def)
  have nx: "nxt ?S = 2" by (simp add: assign_new_def alloc_def bind_var_def init_def)
  from cell_boot_result[OF wfS col, of demo] obtain m s1 where
    b: "run cell_boot demo ?S = (None, s1)" "array2 s1 ''hboot'' = Inr (nxt ?S, m)"
      "get_shape s1 ''nbootstraps'' ''ndata'' = Inr (10000, length (map h0 ?dm))"
      "length m = 10000" "rect (length (map h0 ?dm)) m" "heap_wf s1"
    by blast
  have T: "?T = s1" by (simp add: l q b(1))
  from jitter_before_median[OF b(6) b(2) b(3) b(4) b(5), of demo]
  obtain s2 where "run cell_smooth demo s1 = (None, s2)" "array2 s2 ''hboot'' = Inr (nxt ?S, m)"
    by blast
  then show "\<exists>s2 m. run cell_smooth demo ?T = (None, s2)
        \<and> array2 ?T ''hboot'' = Inr (2, m) \<and> length m = 10000
        \<and> array2 s2 ''hboot'' = Inr (2, m)"
    using b(2,4) unfolding T nx by blast
qed

text \<open>
  C7. No statement of the notebook changes a table once it is loaded. When a load
  returns, \<open>data\<close> names a new object that holds the table the load returned, and after
  any further runs of statements of the notebook (whole cells or parts of them, in any
  order, any number of times) the object at that address still holds that table; the
  same holds for any table at any address. The filter binds \<open>data_modern\<close> to a new
  table (for a table of the layout of \<open>hubble_trim.dat\<close>, the rows dated after 2001)
  and leaves the table it read as it was; the resampling and the jitter step each bind
  their name to a new array and leave every existing object as it was.
\<close>

theorem loaded_table_never_mutated:
  assumes "heap_wf s" and "\<forall>c \<in> set cells. set c \<subseteq> set (concat notebook)"
  shows "(stmt_load_hubble w s = (None, s1) \<longrightarrow>
           (\<exists>a tb. read_fwf (files w) ''hubble_trim.dat'' = Inr tb
              \<and> env s1 ''data'' = Some (Ref a) \<and> heap s a = None
              \<and> heap s1 a = Some (Table tb)
              \<and> heap (session cells w s1) a = Some (Table tb)))
       \<and> (stmt_load_sn w s = (None, s1) \<longrightarrow>
           (\<exists>a p tb. get_str s ''path'' = Inr p
              \<and> read_fwf (files w) (p @ ''sndata.txt'') = Inr tb
              \<and> env s1 ''data'' = Some (Ref a) \<and> heap s a = None
              \<and> heap s1 a = Some (Table tb)
              \<and> heap (session cells w s1) a = Some (Table tb)))
       \<and> (heap s a = Some ob \<and> table_obj ob \<longrightarrow> heap (session cells w s) a = Some ob)
       \<and> (stmt_data_modern w s = (None, s1) \<longrightarrow>
           (\<exists>b c tb tb'. deref s ''data'' = Inr (b, Table tb)
              \<and> query_table (kern w) tb = Inr tb'
              \<and> (\<forall>t. tb = Hubble t \<longrightarrow> tb' = Hubble (query_date (kern w) t))
              \<and> env s1 ''data_modern'' = Some (Ref c) \<and> heap s c = None
              \<and> heap s1 c = Some (Table tb')
              \<and> heap s1 b = Some (Table tb)))
       \<and> (stmt_hboot w s = (None, s1) \<longrightarrow>
           (\<exists>c m. env s1 ''hboot'' = Some (Ref c) \<and> heap s c = None
              \<and> heap s1 c = Some (Arr2 m)
              \<and> (\<forall>b ob'. heap s b = Some ob' \<longrightarrow> heap s1 b = Some ob')))
       \<and> (stmt_sboot w s = (None, s1) \<longrightarrow>
           (\<exists>c m. env s1 ''sboot'' = Some (Ref c) \<and> heap s c = None
              \<and> heap s1 c = Some (Arr2 m)
              \<and> (\<forall>b ob'. heap s b = Some ob' \<longrightarrow> heap s1 b = Some ob')))"
proof (intro conjI impI)
  assume l: "stmt_load_hubble w s = (None, s1)"
  from load_hubble_new[OF assms(1) l] obtain tb where
    t: "read_fwf (files w) ''hubble_trim.dat'' = Inr tb"
      "env s1 ''data'' = Some (Ref (nxt s))" "heap s (nxt s) = None"
      "heap s1 (nxt s) = Some (Table tb)" "heap_wf s1"
    by blast
  have "heap (session cells w s1) (nxt s) = Some (Table tb)"
    by (rule kept_table[OF kept_session[OF t(5) assms(2)] t(4)]) (simp add: array_obj_def)
  with t show "\<exists>a tb. read_fwf (files w) ''hubble_trim.dat'' = Inr tb
              \<and> env s1 ''data'' = Some (Ref a) \<and> heap s a = None
              \<and> heap s1 a = Some (Table tb)
              \<and> heap (session cells w s1) a = Some (Table tb)"
    by blast
next
  assume l: "stmt_load_sn w s = (None, s1)"
  from load_sn_new[OF assms(1) l] obtain p tb where
    t: "get_str s ''path'' = Inr p"
      "read_fwf (files w) (p @ ''sndata.txt'') = Inr tb"
      "env s1 ''data'' = Some (Ref (nxt s))" "heap s (nxt s) = None"
      "heap s1 (nxt s) = Some (Table tb)" "heap_wf s1"
    by blast
  have "heap (session cells w s1) (nxt s) = Some (Table tb)"
    by (rule kept_table[OF kept_session[OF t(6) assms(2)] t(5)]) (simp add: array_obj_def)
  with t show "\<exists>a p tb. get_str s ''path'' = Inr p
              \<and> read_fwf (files w) (p @ ''sndata.txt'') = Inr tb
              \<and> env s1 ''data'' = Some (Ref a) \<and> heap s a = None
              \<and> heap s1 a = Some (Table tb)
              \<and> heap (session cells w s1) a = Some (Table tb)"
    by blast
next
  assume "heap s a = Some ob \<and> table_obj ob"
  then show "heap (session cells w s) a = Some ob"
    using kept_table[OF kept_session[OF assms]] table_not_array by blast
next
  assume l: "stmt_data_modern w s = (None, s1)"
  from data_modern_new[OF assms(1) l] obtain b tb tb' where
    t: "deref s ''data'' = Inr (b, Table tb)"
      "query_table (kern w) tb = Inr tb'"
      "env s1 ''data_modern'' = Some (Ref (nxt s))" "heap s (nxt s) = None"
      "heap s1 (nxt s) = Some (Table tb')"
      "\<forall>b ob. heap s b = Some ob \<longrightarrow> heap s1 b = Some ob"
    by blast
  have h: "heap s1 b = Some (Table tb)" using t(6) deref_heap[OF t(1)] by blast
  have q: "\<forall>t. tb = Hubble t \<longrightarrow> tb' = Hubble (query_date (kern w) t)"
    using t(2) by (auto simp: query_table_def)
  show "\<exists>b c tb tb'. deref s ''data'' = Inr (b, Table tb)
              \<and> query_table (kern w) tb = Inr tb'
              \<and> (\<forall>t. tb = Hubble t \<longrightarrow> tb' = Hubble (query_date (kern w) t))
              \<and> env s1 ''data_modern'' = Some (Ref c) \<and> heap s c = None
              \<and> heap s1 c = Some (Table tb')
              \<and> heap s1 b = Some (Table tb)"
    by (rule exI[of _ b], rule exI[of _ "nxt s"], rule exI[of _ tb], rule exI[of _ tb'])
       (intro conjI t(1) t(2) q t(3) t(4) t(5) h)
next
  assume l: "stmt_hboot w s = (None, s1)"
  from hboot_new[OF assms(1) l]
  show "\<exists>c m. env s1 ''hboot'' = Some (Ref c) \<and> heap s c = None
              \<and> heap s1 c = Some (Arr2 m)
              \<and> (\<forall>b ob'. heap s b = Some ob' \<longrightarrow> heap s1 b = Some ob')"
    by blast
next
  assume l: "stmt_sboot w s = (None, s1)"
  from sboot_new[OF assms(1) l]
  show "\<exists>c m. env s1 ''sboot'' = Some (Ref c) \<and> heap s c = None
              \<and> heap s1 c = Some (Arr2 m)
              \<and> (\<forall>b ob'. heap s b = Some ob' \<longrightarrow> heap s1 b = Some ob')"
    by blast
qed

theorem loaded_table_never_mutated_witness:
  "(\<exists>a. env (assign_new ''data'' (Table (Hubble demo_hubble)) init) ''data'' = Some (Ref a)
     \<and> heap (assign_new ''data'' (Table (Hubble demo_hubble)) init) a = Some (Table (Hubble demo_hubble))
     \<and> heap (session [cell_cut, cell_boot, cell_mean, cell_smooth, cell_sn, cell_fit, cell_jack]
               demo (assign_new ''data'' (Table (Hubble demo_hubble)) init)) a
         = Some (Table (Hubble demo_hubble)))
 \<and> (\<exists>a s1. stmt_load_sn demo (bind_var ''path'' (StrV []) init) = (None, s1)
        \<and> env s1 ''data'' = Some (Ref a)
        \<and> heap (session [cell_jack, cell_load, cell_cut] demo s1) a = Some (Table (SN demo_sn)))
 \<and> (\<exists>s1 c. stmt_data_modern demo (assign_new ''data'' (Table (Hubble demo_hubble)) init) = (None, s1)
        \<and> env s1 ''data_modern'' = Some (Ref c) \<and> c \<noteq> 0
        \<and> heap s1 c = Some (Table (Hubble (query_date exact demo_hubble)))
        \<and> heap s1 0 = Some (Table (Hubble demo_hubble)))
 \<and> (\<exists>s1 c m. stmt_sboot demo demo_state = (None, s1)
        \<and> env s1 ''sboot'' = Some (Ref c) \<and> heap demo_state c = None
        \<and> heap s1 c = Some (Arr2 m)
        \<and> heap s1 0 = Some (Arr2 [[70, 72], [72, 72]]))
 \<and> (\<exists>s1 c m. stmt_hboot demo
          (bind_var ''nbootstraps'' (IntV 10000) (bind_var ''ndata'' (IntV 2)
             (assign_new ''data_modern'' (Table (Hubble (query_date exact demo_hubble)))
                (assign_new ''data'' (Table (Hubble demo_hubble)) init)))) = (None, s1)
        \<and> env s1 ''hboot'' = Some (Ref c) \<and> heap s1 c = Some (Arr2 m)
        \<and> heap s1 0 = Some (Table (Hubble demo_hubble)))"
proof (intro conjI)
  let ?sa = "assign_new ''data'' (Table (Hubble demo_hubble)) (init :: real state)"
  let ?cells = "[cell_cut, cell_boot, cell_mean, cell_smooth, cell_sn, cell_fit, cell_jack]
                  :: real stmt list list"
  have wf: "heap_wf (init :: real state)" by (simp add: heap_wf_def init_def)
  have wfa: "heap_wf ?sa" using assign_new_facts(6)[OF wf] .
  have sub: "\<forall>c \<in> set cs. set c \<subseteq> set (concat notebook)"
    if "\<forall>c \<in> set cs. c \<in> set notebook" for cs :: "real stmt list list"
    using that cell_of_notebook by blast
  have sub1: "\<forall>c \<in> set ?cells. set c \<subseteq> set (concat notebook)"
    by (rule sub) (simp add: notebook_def)
  have rd: "read_fwf (files demo) ''hubble_trim.dat'' = Inr (Hubble demo_hubble)"
    by (simp add: read_fwf_def demo_def)
  have ld: "stmt_load_hubble demo init = (None, ?sa)"
    by (simp add: stmt_load_hubble_def rd bind_err_def assign_obj_def)
  from loaded_table_never_mutated[OF wf sub1, THEN conjunct1, THEN mp, OF ld]
  obtain a tb where "read_fwf (files demo) ''hubble_trim.dat'' = Inr tb"
    and r: "env ?sa ''data'' = Some (Ref a)" "heap ?sa a = Some (Table tb)"
      "heap (session ?cells demo ?sa) a = Some (Table tb)"
    by blast
  then have "tb = Hubble demo_hubble" using rd by simp
  with r show "\<exists>a. env ?sa ''data'' = Some (Ref a)
     \<and> heap ?sa a = Some (Table (Hubble demo_hubble))
     \<and> heap (session ?cells demo ?sa) a = Some (Table (Hubble demo_hubble))"
    by blast

  let ?sp = "bind_var ''path'' (StrV []) (init :: real state)"
  let ?cs2 = "[cell_jack, cell_load, cell_cut] :: real stmt list list"
  have wfp: "heap_wf ?sp" using wf by (simp add: heap_wf_def bind_var_def)
  have sub2: "\<forall>c \<in> set ?cs2. set c \<subseteq> set (concat notebook)"
    by (rule sub) (simp add: notebook_def)
  have gp: "get_str ?sp ''path'' = Inr []"
    by (simp add: get_str_def get_var_def bind_var_def bind_err_def)
  have rs: "read_fwf (files demo) ([] @ ''sndata.txt'') = Inr (SN demo_sn)"
    by (simp add: read_fwf_def demo_def)
  have ls: "stmt_load_sn demo ?sp = (None, assign_new ''data'' (Table (SN demo_sn)) ?sp)"
    by (simp only: stmt_load_sn_def gp rs bind_err_def assign_obj_def sum.case)
  from loaded_table_never_mutated[OF wfp sub2, THEN conjunct2, THEN conjunct1, THEN mp, OF ls]
  obtain a2 p tb2 where "get_str ?sp ''path'' = Inr p"
    "read_fwf (files demo) (p @ ''sndata.txt'') = Inr tb2"
    and r2: "env (assign_new ''data'' (Table (SN demo_sn)) ?sp) ''data'' = Some (Ref a2)"
      "heap (session ?cs2 demo (assign_new ''data'' (Table (SN demo_sn)) ?sp)) a2
         = Some (Table tb2)"
    by blast
  then have "tb2 = SN demo_sn" using gp rs by simp
  with r2 ls show "\<exists>a s1. stmt_load_sn demo ?sp = (None, s1)
        \<and> env s1 ''data'' = Some (Ref a)
        \<and> heap (session ?cs2 demo s1) a = Some (Table (SN demo_sn))"
    by blast

  let ?dm = "query_date (kern demo) demo_hubble"
  let ?sb = "assign_new ''data_modern'' (Table (Hubble ?dm)) ?sa"
  have k: "kern demo = exact" by (simp add: demo_def)
  have d: "deref ?sa ''data'' = Inr (0, Table (Hubble demo_hubble))"
    by (simp add: deref_def get_var_def bind_err_def assign_new_def alloc_def bind_var_def
        init_def)
  have q: "stmt_data_modern demo ?sa = (None, ?sb)"
    by (simp add: stmt_data_modern_def d bind_err_def assign_obj_def query_table_def)
  from loaded_table_never_mutated[OF wfa sub1, THEN conjunct2, THEN conjunct2, THEN conjunct2,
      THEN conjunct1, THEN mp, OF q]
  obtain b c tb3 tb4 where r3: "deref ?sa ''data'' = Inr (b, Table tb3)"
      "\<forall>t. tb3 = Hubble t \<longrightarrow> tb4 = Hubble (query_date (kern demo) t)"
      "env ?sb ''data_modern'' = Some (Ref c)" "heap ?sa c = None"
      "heap ?sb c = Some (Table tb4)" "heap ?sb b = Some (Table tb3)"
    by blast
  have bt: "b = 0" "tb3 = Hubble demo_hubble" using r3(1) d by simp_all
  have t4: "tb4 = Hubble (query_date exact demo_hubble)" using r3(2) bt(2) k by simp
  have h0: "heap ?sa 0 = Some (Table (Hubble demo_hubble))" using d by (rule deref_heap)
  have "c \<noteq> 0"
  proof
    assume "c = 0"
    then show False using r3(4) h0 by simp
  qed
  then show "\<exists>s1 c. stmt_data_modern demo ?sa = (None, s1)
        \<and> env s1 ''data_modern'' = Some (Ref c) \<and> c \<noteq> 0
        \<and> heap s1 c = Some (Table (Hubble (query_date exact demo_hubble)))
        \<and> heap s1 0 = Some (Table (Hubble demo_hubble))"
    using q r3(3,5,6) unfolding bt t4 by blast

  let ?H = "[[70, 72], [72, 72 :: real]]"
  have wfd: "heap_wf demo_state"
    by (simp add: demo_state_def heap_wf_def init_def assign_new_def alloc_def bind_var_def)
  have hb: "array2 demo_state ''hboot'' = Inr (0, ?H)"
    by (simp add: demo_state_def array2_def deref_def get_var_def bind_err_def init_def
        assign_new_def alloc_def bind_var_def)
  have sh: "get_shape demo_state ''nbootstraps'' ''ndata'' = Inr (2, 2)"
    by (simp add: demo_state_def get_shape_def get_int_def get_var_def bind_err_def to_dim_def
        init_def assign_new_def alloc_def bind_var_def)
  have "np_add2 (k_add (kern demo)) ?H (randn (\<lambda>j. normals demo (rng demo_state + j)) (2, 2))
          = Inr (map (\<lambda>i. map (\<lambda>j. k_add (kern demo) (?H ! i ! j)
              (randn (\<lambda>j. normals demo (rng demo_state + j)) (2, 2) ! i ! j)) [0..<2]) [0..<2])"
  proof (rule np_add2_same_shape)
    show "length ?H = 2" by simp
    show "length (randn (\<lambda>j. normals demo (rng demo_state + j)) (2, 2)) = 2"
      by (rule length_randn)
    show "rect 2 ?H" by (simp add: rect_def)
    show "rect 2 (randn (\<lambda>j. normals demo (rng demo_state + j)) (2, 2))"
      by (rule rect_randn)
  qed
  then obtain S where S: "np_add2 (k_add (kern demo)) ?H
      (randn (\<lambda>j. normals demo (rng demo_state + j)) (2, 2)) = Inr S"
    by blast
  let ?sd = "assign_new ''sboot'' (Arr2 S) (demo_state\<lparr>rng := rng demo_state + 2 * 2\<rparr>)"
  have sbo: "stmt_sboot demo demo_state = (None, ?sd)"
    by (simp only: stmt_sboot_def hb sh bind_err_def S assign_obj_def sum.case prod.case)
  from loaded_table_never_mutated[OF wfd sub1, THEN conjunct2, THEN conjunct2, THEN conjunct2,
      THEN conjunct2, THEN conjunct2, THEN mp, OF sbo]
  obtain c4 m4 where r4: "env ?sd ''sboot'' = Some (Ref c4)" "heap demo_state c4 = None"
    "heap ?sd c4 = Some (Arr2 m4)"
    "\<forall>b ob'. heap demo_state b = Some ob' \<longrightarrow> heap ?sd b = Some ob'"
    by blast
  have "heap demo_state 0 = Some (Arr2 ?H)" using hb by (rule array2_heap)
  then have "heap ?sd 0 = Some (Arr2 ?H)" using r4(4) by blast
  then show "\<exists>s1 c m. stmt_sboot demo demo_state = (None, s1)
        \<and> env s1 ''sboot'' = Some (Ref c) \<and> heap demo_state c = None
        \<and> heap s1 c = Some (Arr2 m)
        \<and> heap s1 0 = Some (Arr2 [[70, 72], [72, 72]])"
    using sbo r4(1,2,3) by blast

  let ?se = "bind_var ''nbootstraps'' (IntV 10000) (bind_var ''ndata'' (IntV 2)
             (assign_new ''data_modern'' (Table (Hubble (query_date exact demo_hubble))) ?sa))"
  have wfe: "heap_wf ?se"
    by (simp add: heap_wf_def init_def assign_new_def alloc_def bind_var_def)
  have dm: "query_date exact demo_hubble = [demo_hubble ! 0, demo_hubble ! 2]"
    by (simp add: query_date_def exact_def demo_hubble_def)
  have col: "column ?se ''data_modern'' ''h0'' = Inr [70, 72]"
    by (simp add: column_def deref_def get_var_def bind_err_def assign_new_def alloc_def
        bind_var_def init_def table_col_def dm) (simp add: demo_hubble_def)
  have she: "get_shape ?se ''nbootstraps'' ''ndata'' = Inr (10000, 2)"
    by (simp add: get_shape_def get_int_def get_var_def bind_err_def to_dim_def bind_var_def)
  obtain m5 where m5: "choice (\<lambda>j. entropy demo (rng ?se + j)) [70, 72 :: real] (10000, 2) = Inr m5"
    using choice_returns[of "[70, 72 :: real]" 10000 2] by auto
  have hbo: "stmt_hboot demo ?se
      = (None, assign_new ''hboot'' (Arr2 m5) (?se\<lparr>rng := rng ?se + 10000 * 2\<rparr>))"
    by (simp only: stmt_hboot_def col she bind_err_def m5 sum.case prod.case)
  from loaded_table_never_mutated[OF wfe sub1, THEN conjunct2, THEN conjunct2, THEN conjunct2,
      THEN conjunct2, THEN conjunct1, THEN mp, OF hbo]
  obtain c5 m6 where r5:
    "env (assign_new ''hboot'' (Arr2 m5) (?se\<lparr>rng := rng ?se + 10000 * 2\<rparr>)) ''hboot''
       = Some (Ref c5)"
    "heap (assign_new ''hboot'' (Arr2 m5) (?se\<lparr>rng := rng ?se + 10000 * 2\<rparr>)) c5
       = Some (Arr2 m6)"
    "\<forall>b ob'. heap ?se b = Some ob' \<longrightarrow>
       heap (assign_new ''hboot'' (Arr2 m5) (?se\<lparr>rng := rng ?se + 10000 * 2\<rparr>)) b = Some ob'"
    by blast
  have "heap ?se 0 = Some (Table (Hubble demo_hubble))"
    by (simp add: assign_new_def alloc_def bind_var_def init_def)
  then have "heap (assign_new ''hboot'' (Arr2 m5) (?se\<lparr>rng := rng ?se + 10000 * 2\<rparr>)) 0
      = Some (Table (Hubble demo_hubble))"
    using r5(3) by blast
  then show "\<exists>s1 c m. stmt_hboot demo ?se = (None, s1)
        \<and> env s1 ''hboot'' = Some (Ref c) \<and> heap s1 c = Some (Arr2 m)
        \<and> heap s1 0 = Some (Table (Hubble demo_hubble))"
    using hbo r5(1,2) by blast
qed

text \<open>
  C8. When an input file is missing, the load raises \<open>FileNotFoundError\<close>; when pandas
  raises on a file that exists (on a file that is not text, \<open>UnicodeDecodeError\<close>), the
  load raises that exception. In both cases the load statement ends with the exception
  and the state it was run on, the statements after it in the cell are not run, and
  nothing catches the exception; in the supernova cell only the assignment to \<open>path\<close>
  before the load has taken effect. A file that pandas reads is not rejected by the
  load, whatever its layout: \<open>data\<close> is bound to the table pandas makes of it, and
  when that table has no column \<open>cz\<close> the exception of the supernova cell is the
  \<open>KeyError\<close> of the statement after the load, raised with \<open>data\<close> bound to the table.
\<close>

theorem failed_load_propagates:
  "(files w ''hubble_trim.dat'' = None \<longrightarrow>
      stmt_load_hubble w s = (Some FileNotFoundError, s)
    \<and> run (stmt_load_hubble # rest) w s = (Some FileNotFoundError, s)
    \<and> session [cell_load] w s = s)
 \<and> (files w ''hubble_trim.dat'' = Some (Inl e) \<longrightarrow>
      stmt_load_hubble w s = (Some e, s)
    \<and> run (stmt_load_hubble # rest) w s = (Some e, s)
    \<and> session [cell_load] w s = s)
 \<and> (get_str s ''path'' = Inr p \<and> files w (p @ ''sndata.txt'') = None \<longrightarrow>
      stmt_load_sn w s = (Some FileNotFoundError, s)
    \<and> run (stmt_load_sn # rest) w s = (Some FileNotFoundError, s))
 \<and> (get_str s ''path'' = Inr p \<and> files w (p @ ''sndata.txt'') = Some (Inl e) \<longrightarrow>
      stmt_load_sn w s = (Some e, s)
    \<and> run (stmt_load_sn # rest) w s = (Some e, s))
 \<and> (files w ''sndata.txt'' = None \<longrightarrow>
      run cell_sn w s = (Some FileNotFoundError, bind_var ''path'' (StrV []) s))
 \<and> (files w ''sndata.txt'' = Some (Inl e) \<longrightarrow>
      run cell_sn w s = (Some e, bind_var ''path'' (StrV []) s))
 \<and> (files w ''hubble_trim.dat'' = Some (Inr tb) \<longrightarrow>
      stmt_load_hubble w s = (None, assign_new ''data'' (Table tb) s))
 \<and> (get_str s ''path'' = Inr p \<and> files w (p @ ''sndata.txt'') = Some (Inr tb) \<longrightarrow>
      stmt_load_sn w s = (None, assign_new ''data'' (Table tb) s))
 \<and> (files w ''sndata.txt'' = Some (Inr (Frame cols)) \<and> map_of cols ''cz'' = None \<longrightarrow>
      run cell_sn w s
        = (Some KeyError,
           assign_new ''data'' (Table (Frame cols)) (bind_var ''path'' (StrV []) s)))"
proof -
  let ?s = "bind_var ''path'' (StrV []) s"
  have hub: "stmt_load_hubble w s = (Some x, s) \<and> run (stmt_load_hubble # rest) w s = (Some x, s)
      \<and> session [cell_load] w s = s"
    if "read_fwf (files w) ''hubble_trim.dat'' = Inl x" for x
  proof -
    have a: "stmt_load_hubble w s = (Some x, s)"
      using that by (simp add: stmt_load_hubble_def bind_err_def assign_obj_def)
    then show ?thesis by (simp add: cell_load_def)
  qed
  have sn: "stmt_load_sn w t = (Some x, t) \<and> run (stmt_load_sn # rest) w t = (Some x, t)"
    if "get_str t ''path'' = Inr q" "read_fwf (files w) (q @ ''sndata.txt'') = Inl x" for x t q
  proof -
    have a: "stmt_load_sn w t = (Some x, t)"
      using that by (simp add: stmt_load_sn_def bind_err_def assign_obj_def)
    then show ?thesis by simp
  qed
  have p: "stmt_path w s = (None, ?s)" by (simp add: stmt_path_def assign_val_def)
  have gp: "get_str ?s ''path'' = Inr []"
    by (simp add: get_str_def get_var_def bind_var_def bind_err_def)
  have cell: "run cell_sn w s = (Some x, ?s)" if "read_fwf (files w) ''sndata.txt'' = Inl x" for x
  proof -
    have "stmt_load_sn w ?s = (Some x, ?s)" using sn[OF gp] that by simp
    then show ?thesis using p by (simp add: cell_sn_def)
  qed
  have ok_hub: "stmt_load_hubble w s = (None, assign_new ''data'' (Table tb) s)"
    if "files w ''hubble_trim.dat'' = Some (Inr tb)"
    using that by (simp add: stmt_load_hubble_def read_fwf_def bind_err_def assign_obj_def)
  have ok_sn: "stmt_load_sn w t = (None, assign_new ''data'' (Table tb') t)"
    if "get_str t ''path'' = Inr q" "files w (q @ ''sndata.txt'') = Some (Inr tb')" for t q tb'
    using that by (simp add: stmt_load_sn_def read_fwf_def bind_err_def assign_obj_def)
  have frame: "run cell_sn w s
        = (Some KeyError, assign_new ''data'' (Table (Frame cols)) ?s)"
    if f: "files w ''sndata.txt'' = Some (Inr (Frame cols))" and c: "map_of cols ''cz'' = None"
  proof -
    let ?t = "assign_new ''data'' (Table (Frame cols)) ?s"
    have l: "stmt_load_sn w ?s = (None, ?t)" using ok_sn[OF gp] f by simp
    have d: "deref ?t ''data'' = Inr (nxt s, Table (Frame cols))"
      by (simp add: deref_def get_var_def bind_err_def assign_new_def alloc_def bind_var_def)
    have "stmt_cz w ?t = (Some KeyError, ?t)"
      by (simp add: stmt_cz_def stmt_view_def d bind_err_def table_col_def c assign_obj_def)
    then show ?thesis using p l by (simp add: cell_sn_def)
  qed
  show ?thesis
  proof (intro conjI impI)
    assume "files w ''hubble_trim.dat'' = None"
    then have r: "read_fwf (files w) ''hubble_trim.dat'' = Inl FileNotFoundError"
      by (simp add: read_fwf_def)
    show "stmt_load_hubble w s = (Some FileNotFoundError, s)"
      "run (stmt_load_hubble # rest) w s = (Some FileNotFoundError, s)"
      "session [cell_load] w s = s"
      using hub[OF r] by blast+
  next
    assume "files w ''hubble_trim.dat'' = Some (Inl e)"
    then have r: "read_fwf (files w) ''hubble_trim.dat'' = Inl e"
      by (simp add: read_fwf_def)
    show "stmt_load_hubble w s = (Some e, s)"
      "run (stmt_load_hubble # rest) w s = (Some e, s)"
      "session [cell_load] w s = s"
      using hub[OF r] by blast+
  next
    assume a: "get_str s ''path'' = Inr p \<and> files w (p @ ''sndata.txt'') = None"
    then have r: "read_fwf (files w) (p @ ''sndata.txt'') = Inl FileNotFoundError"
      by (simp add: read_fwf_def)
    show "stmt_load_sn w s = (Some FileNotFoundError, s)"
      "run (stmt_load_sn # rest) w s = (Some FileNotFoundError, s)"
      using sn[OF a[THEN conjunct1] r] by blast+
  next
    assume a: "get_str s ''path'' = Inr p \<and> files w (p @ ''sndata.txt'') = Some (Inl e)"
    then have r: "read_fwf (files w) (p @ ''sndata.txt'') = Inl e"
      by (simp add: read_fwf_def)
    show "stmt_load_sn w s = (Some e, s)"
      "run (stmt_load_sn # rest) w s = (Some e, s)"
      using sn[OF a[THEN conjunct1] r] by blast+
  next
    assume "files w ''sndata.txt'' = None"
    then have "read_fwf (files w) ''sndata.txt'' = Inl FileNotFoundError"
      by (simp add: read_fwf_def)
    then show "run cell_sn w s = (Some FileNotFoundError, ?s)" by (rule cell)
  next
    assume "files w ''sndata.txt'' = Some (Inl e)"
    then have "read_fwf (files w) ''sndata.txt'' = Inl e"
      by (simp add: read_fwf_def)
    then show "run cell_sn w s = (Some e, ?s)" by (rule cell)
  next
    assume "files w ''hubble_trim.dat'' = Some (Inr tb)"
    then show "stmt_load_hubble w s = (None, assign_new ''data'' (Table tb) s)"
      by (rule ok_hub)
  next
    assume "get_str s ''path'' = Inr p \<and> files w (p @ ''sndata.txt'') = Some (Inr tb)"
    then show "stmt_load_sn w s = (None, assign_new ''data'' (Table tb) s)"
      using ok_sn by blast
  next
    assume "files w ''sndata.txt'' = Some (Inr (Frame cols)) \<and> map_of cols ''cz'' = None"
    then show "run cell_sn w s
        = (Some KeyError, assign_new ''data'' (Table (Frame cols)) ?s)"
      using frame by blast
  qed
qed

theorem failed_load_propagates_witness:
  "files demo_no_files ''hubble_trim.dat'' = None
 \<and> stmt_load_hubble demo_no_files init = (Some FileNotFoundError, init)
 \<and> run (stmt_load_hubble # cell_cut) demo_no_files init = (Some FileNotFoundError, init)
 \<and> session [cell_load] demo_no_files init = init
 \<and> files demo_not_text ''hubble_trim.dat'' = Some (Inl UnicodeDecodeError)
 \<and> stmt_load_hubble demo_not_text init = (Some UnicodeDecodeError, init)
 \<and> session [cell_load] demo_not_text init = init
 \<and> get_str (bind_var ''path'' (StrV []) (init :: real state)) ''path'' = Inr []
 \<and> files demo_no_files ([] @ ''sndata.txt'') = None
 \<and> run (stmt_load_sn # cell_fit) demo_no_files (bind_var ''path'' (StrV []) init)
      = (Some FileNotFoundError, bind_var ''path'' (StrV []) init)
 \<and> files demo_not_text ([] @ ''sndata.txt'') = Some (Inl UnicodeDecodeError)
 \<and> stmt_load_sn demo_not_text (bind_var ''path'' (StrV []) init)
      = (Some UnicodeDecodeError, bind_var ''path'' (StrV []) init)
 \<and> run cell_sn demo_no_files init = (Some FileNotFoundError, bind_var ''path'' (StrV []) init)
 \<and> run cell_sn demo_not_text init = (Some UnicodeDecodeError, bind_var ''path'' (StrV []) init)
 \<and> files demo ''hubble_trim.dat'' = Some (Inr (Hubble demo_hubble))
 \<and> stmt_load_hubble demo init = (None, assign_new ''data'' (Table (Hubble demo_hubble)) init)
 \<and> files demo ([] @ ''sndata.txt'') = Some (Inr (SN demo_sn))
 \<and> stmt_load_sn demo (bind_var ''path'' (StrV []) init)
      = (None, assign_new ''data'' (Table (SN demo_sn)) (bind_var ''path'' (StrV []) init))
 \<and> files demo_other_layout ''sndata.txt'' = Some (Inr (Frame [(''?'', [])]))
 \<and> map_of [(''?'', [] :: real list)] ''cz'' = None
 \<and> run cell_sn demo_other_layout init
      = (Some KeyError,
         assign_new ''data'' (Table (Frame [(''?'', [])])) (bind_var ''path'' (StrV []) init))"
proof -
  let ?sp = "bind_var ''path'' (StrV []) (init :: real state)"
  have f1: "files demo_no_files ''hubble_trim.dat'' = None"
    by (simp add: demo_no_files_def)
  have f2: "files demo_not_text ''hubble_trim.dat'' = Some (Inl UnicodeDecodeError)"
    by (simp add: demo_not_text_def)
  have gp: "get_str ?sp ''path'' = Inr []"
    by (simp add: get_str_def get_var_def bind_var_def bind_err_def)
  have f3: "files demo_no_files ([] @ ''sndata.txt'') = None"
    by (simp add: demo_no_files_def)
  have f4: "files demo_not_text ([] @ ''sndata.txt'') = Some (Inl UnicodeDecodeError)"
    by (simp add: demo_not_text_def)
  have f5: "files demo_no_files ''sndata.txt'' = None"
    by (simp add: demo_no_files_def)
  have f6: "files demo_not_text ''sndata.txt'' = Some (Inl UnicodeDecodeError)"
    by (simp add: demo_not_text_def)
  have f7: "files demo ''hubble_trim.dat'' = Some (Inr (Hubble demo_hubble))"
    by (simp add: demo_def)
  have f8: "files demo ([] @ ''sndata.txt'') = Some (Inr (SN demo_sn))"
    by (simp add: demo_def)
  have f9: "files demo_other_layout ''sndata.txt'' = Some (Inr (Frame [(''?'', [])]))"
    by (simp add: demo_other_layout_def)
  have f10: "map_of [(''?'', [] :: real list)] ''cz'' = None" by simp
  note t1 = failed_load_propagates[where w = demo_no_files and s = "init :: real state"
      and rest = cell_cut]
  note t2 = failed_load_propagates[where w = demo_not_text and s = "init :: real state"
      and e = UnicodeDecodeError]
  note t3 = failed_load_propagates[where w = demo_no_files and s = ?sp and p = "[]"
      and rest = cell_fit]
  note t4 = failed_load_propagates[where w = demo_not_text and s = ?sp and p = "[]"
      and e = UnicodeDecodeError]
  note t5 = failed_load_propagates[where w = demo and s = "init :: real state"
      and tb = "Hubble demo_hubble"]
  note t6 = failed_load_propagates[where w = demo and s = ?sp and p = "[]"
      and tb = "SN demo_sn"]
  note t7 = failed_load_propagates[where w = demo_other_layout and s = "init :: real state"
      and cols = "[(''?'', [])]"]
  note c2 = conjunct2
  note a1 = t1[THEN conjunct1, THEN mp, OF f1]
  note a2 = t2[THEN c2, THEN conjunct1, THEN mp, OF f2]
  note a3 = t3[THEN c2, THEN c2, THEN conjunct1, THEN mp, OF conjI[OF gp f3]]
  note a4 = t4[THEN c2, THEN c2, THEN c2, THEN conjunct1, THEN mp, OF conjI[OF gp f4]]
  note a5 = t1[THEN c2, THEN c2, THEN c2, THEN c2, THEN conjunct1, THEN mp, OF f5]
  note a6 = t2[THEN c2, THEN c2, THEN c2, THEN c2, THEN c2, THEN conjunct1, THEN mp, OF f6]
  note a7 = t5[THEN c2, THEN c2, THEN c2, THEN c2, THEN c2, THEN c2, THEN conjunct1, THEN mp,
      OF f7]
  note a8 = t6[THEN c2, THEN c2, THEN c2, THEN c2, THEN c2, THEN c2, THEN c2, THEN conjunct1,
      THEN mp, OF conjI[OF gp f8]]
  note a9 = t7[THEN c2, THEN c2, THEN c2, THEN c2, THEN c2, THEN c2, THEN c2, THEN c2,
      THEN mp, OF conjI[OF f9 f10]]
  show ?thesis
    by (intro conjI f1 a1[THEN conjunct1] a1[THEN c2, THEN conjunct1] a1[THEN c2, THEN c2]
        f2 a2[THEN conjunct1] a2[THEN c2, THEN c2] gp f3 a3[THEN c2] f4 a4[THEN conjunct1]
        a5 a6 f7 a7 f8 a8 f9 f10 a9)
qed

text \<open>
  The load of C8 does not raise on every file that is not a table of measurements. On
  an \<open>sndata.txt\<close> that holds the single line \<open>?\<close> the load statement returns and binds
  \<open>data\<close>, unbound before, to a table with the one column \<open>?\<close>; the exception of the
  cell is raised by the statement after the load, on the state the load has changed.
\<close>

theorem malformed_file_loads:
  "files demo_other_layout ''sndata.txt'' = Some (Inr (Frame [(''?'', [])]))
 \<and> stmt_load_sn demo_other_layout (bind_var ''path'' (StrV []) init)
      = (None, assign_new ''data'' (Table (Frame [(''?'', [])]))
                 (bind_var ''path'' (StrV []) init))
 \<and> stmt_cz demo_other_layout
        (assign_new ''data'' (Table (Frame [(''?'', [])])) (bind_var ''path'' (StrV []) init))
      = (Some KeyError,
         assign_new ''data'' (Table (Frame [(''?'', [])])) (bind_var ''path'' (StrV []) init))
 \<and> fst (run cell_sn demo_other_layout init) = Some KeyError
 \<and> env (init :: real state) ''data'' = None
 \<and> env (snd (run cell_sn demo_other_layout init)) ''data'' = Some (Ref 0)
 \<and> heap (snd (run cell_sn demo_other_layout init)) 0 = Some (Table (Frame [(''?'', [])]))"
proof -
  let ?sp = "bind_var ''path'' (StrV []) (init :: real state)"
  let ?t = "assign_new ''data'' (Table (Frame [(''?'', [])])) ?sp"
  have f: "files demo_other_layout ''sndata.txt'' = Some (Inr (Frame [(''?'', [])]))"
    by (simp add: demo_other_layout_def)
  have p: "stmt_path demo_other_layout init = (None, ?sp)"
    by (simp add: stmt_path_def assign_val_def)
  have gp: "get_str ?sp ''path'' = Inr []"
    by (simp add: get_str_def get_var_def bind_var_def bind_err_def)
  have l: "stmt_load_sn demo_other_layout ?sp = (None, ?t)"
    using f by (simp add: stmt_load_sn_def gp read_fwf_def bind_err_def assign_obj_def)
  have d: "deref ?t ''data'' = Inr (0, Table (Frame [(''?'', [])]))"
    by (simp add: deref_def get_var_def bind_err_def assign_new_def alloc_def bind_var_def
        init_def)
  have c: "stmt_cz demo_other_layout ?t = (Some KeyError, ?t)"
    by (simp add: stmt_cz_def stmt_view_def d bind_err_def table_col_def assign_obj_def)
  have r: "run cell_sn demo_other_layout init = (Some KeyError, ?t)"
    using p l c by (simp add: cell_sn_def)
  have e0: "env (init :: real state) ''data'' = None" by (simp add: init_def)
  have e1: "env ?t ''data'' = Some (Ref 0)"
    by (simp add: assign_new_def alloc_def bind_var_def init_def)
  have h1: "heap ?t 0 = Some (Table (Frame [(''?'', [])]))"
    by (simp add: assign_new_def alloc_def bind_var_def init_def)
  show ?thesis using f l c e0 e1 h1 by (simp add: r)
qed
end
